theory Spec2Isabelle
  imports Main "HOL-Library.Word" "HOL-Library.AList"
begin

section \<open>OpenGL enumerants used by BindingState.cpp\<close>

text \<open>
  The numeric values are those of the OpenGL headers that \<^verbatim>\<open>GLHeader.h\<close> pulls in.
  Only their equality matters below.
\<close>

type_synonym u32 = "32 word"

definition GL_ARRAY_BUFFER :: u32 where "GL_ARRAY_BUFFER = 0x8892"
definition GL_ELEMENT_ARRAY_BUFFER :: u32 where "GL_ELEMENT_ARRAY_BUFFER = 0x8893"
definition GL_PIXEL_PACK_BUFFER :: u32 where "GL_PIXEL_PACK_BUFFER = 0x88EB"
definition GL_PIXEL_UNPACK_BUFFER :: u32 where "GL_PIXEL_UNPACK_BUFFER = 0x88EC"
definition GL_UNIFORM_BUFFER :: u32 where "GL_UNIFORM_BUFFER = 0x8A11"
definition GL_TEXTURE_BUFFER :: u32 where "GL_TEXTURE_BUFFER = 0x8C2A"
definition GL_TRANSFORM_FEEDBACK_BUFFER :: u32 where "GL_TRANSFORM_FEEDBACK_BUFFER = 0x8C8E"
definition GL_COPY_READ_BUFFER :: u32 where "GL_COPY_READ_BUFFER = 0x8F36"
definition GL_COPY_WRITE_BUFFER :: u32 where "GL_COPY_WRITE_BUFFER = 0x8F37"
definition GL_DRAW_INDIRECT_BUFFER :: u32 where "GL_DRAW_INDIRECT_BUFFER = 0x8F3F"
definition GL_SHADER_STORAGE_BUFFER :: u32 where "GL_SHADER_STORAGE_BUFFER = 0x90D2"
definition GL_DISPATCH_INDIRECT_BUFFER :: u32 where "GL_DISPATCH_INDIRECT_BUFFER = 0x90EE"
definition GL_QUERY_BUFFER :: u32 where "GL_QUERY_BUFFER = 0x9192"
definition GL_ATOMIC_COUNTER_BUFFER :: u32 where "GL_ATOMIC_COUNTER_BUFFER = 0x92C0"

definition GL_READ_ONLY :: u32 where "GL_READ_ONLY = 0x88B8"
definition GL_WRITE_ONLY :: u32 where "GL_WRITE_ONLY = 0x88B9"
definition GL_READ_WRITE :: u32 where "GL_READ_WRITE = 0x88BA"
definition GL_BYTE :: u32 where "GL_BYTE = 0x1400"
definition GL_UNSIGNED_BYTE :: u32 where "GL_UNSIGNED_BYTE = 0x1401"
definition GL_RED :: u32 where "GL_RED = 0x1903"
definition GL_RGB :: u32 where "GL_RGB = 0x1907"
definition GL_RGBA :: u32 where "GL_RGBA = 0x1908"
definition GL_RG :: u32 where "GL_RG = 0x8227"
definition GL_R8 :: u32 where "GL_R8 = 0x8229"
definition GL_RG8 :: u32 where "GL_RG8 = 0x822B"
definition GL_RGB8 :: u32 where "GL_RGB8 = 0x8051"
definition GL_RGBA8 :: u32 where "GL_RGBA8 = 0x8058"
definition GL_RGBA32F :: u32 where "GL_RGBA32F = 0x8814"

section \<open>Resources, bindings and snapshots\<close>

text \<open>
  A \<^verbatim>\<open>Util::Reference\<close> to a buffer or texture is the identity of the referenced object, or
  \<open>None\<close> for the null reference. What the referenced objects currently report
  (\<^verbatim>\<open>getOffset\<close>, \<^verbatim>\<open>getSize\<close>, \<^verbatim>\<open>getGLId\<close>, the pixel format) lives outside the snapshot and is
  read through an explicit store, because a current and a target snapshot may reference the
  same object.
\<close>

type_synonym buffer_ref = nat
type_synonym texture_ref = nat

record live =
  getOffset :: "buffer_ref \<Rightarrow> nat"
  getSize :: "buffer_ref \<Rightarrow> nat"
  getGLId :: "texture_ref \<Rightarrow> u32"
  glInternalFormat :: "texture_ref \<Rightarrow> u32"
  glLocalDataType :: "texture_ref \<Rightarrow> u32"

text \<open>
  \<^verbatim>\<open>BindingState::BufferBinding\<close>. Its anonymous union overlays the pair
  \<^verbatim>\<open>{target, location}\<close> with the 64-bit \<^verbatim>\<open>_key\<close>; the model keeps the pair, which the 64-bit
  value determines and is determined by. \<open>location\<close> is a \<^verbatim>\<open>uint32_t\<close> that is only
  compared and used as a bit position, \<open>offset\<close> and \<open>bsize\<close> (the field \<^verbatim>\<open>size\<close>) are the
  extent cached at bind time.
\<close>

type_synonym buffer_key = "u32 \<times> nat"

record BufferBinding =
  target :: u32
  location :: nat
  buffer :: "buffer_ref option"
  offset :: nat
  bsize :: nat

definition key_of :: "BufferBinding \<Rightarrow> buffer_key" where
  "key_of b = (target b, location b)"

record ImageBindParameters =
  texture :: "texture_ref option"
  level :: nat
  layer :: nat
  multiLayer :: bool
  readOperations :: bool
  writeOperations :: bool

text \<open>
  The three \<^verbatim>\<open>std::unordered_map\<close>s of a \<^verbatim>\<open>BindingState\<close>, as association lists: the order of
  a list is the order in which a range-based \<^verbatim>\<open>for\<close> visits the map (which C++ leaves
  unspecified), \<open>map_of\<close> is \<^verbatim>\<open>find\<close>. A list that stands for a map has distinct keys.
\<close>

record BindingState =
  buffers :: "(buffer_key \<times> BufferBinding) list"
  textures :: "(nat \<times> texture_ref option) list"
  images :: "(nat \<times> ImageBindParameters) list"

text \<open>
  Declarations of \<^verbatim>\<open>BindingState.h\<close>, which is not among the sources, taken as parameters:
  the widths of the seven \<^verbatim>\<open>std::bitset\<close>s of \<^verbatim>\<open>StateDiff_t\<close>, the values of
  \<^verbatim>\<open>getMaxTextureBindings()\<close> and \<^verbatim>\<open>getMaxImageBindings()\<close>, and the image binding that
  \<^verbatim>\<open>getImage\<close> reports for a unit without entry. The loop counters of \<^verbatim>\<open>apply\<close> are
  \<^verbatim>\<open>uint_fast8_t\<close>; the model counts in \<open>nat\<close>, that is, it takes the counter type to be wide
  enough for these bounds.
\<close>

record limits =
  ssbos_size :: nat
  ubos_size :: nat
  acbos_size :: nat
  tfbos_size :: nat
  other_size :: nat
  textures_size :: nat
  images_size :: nat
  maxTextureBindings :: nat
  maxImageBindings :: nat
  unboundImage :: ImageBindParameters

text \<open>
  Modelled from the spec: \<^verbatim>\<open>getBufferBinding\<close>, \<^verbatim>\<open>getTexture\<close>, \<^verbatim>\<open>getImage\<close> and the
  comparison operators of the bindings are declared in \<^verbatim>\<open>BindingState.h\<close>. The spec has
  \<open>get(key) -> Binding|absent\<close> where "a key absent from one snapshot is treated as unbound",
  the null handle being "a valid, distinct value meaning unbound"; two buffer bindings differ
  when "the bound Resource Handle differs", staleness of the cached extent being explicitly
  not "flagged as a target-differs-from-current change"; image parameters "all participate in
  equality".
\<close>

definition unboundBuffer :: BufferBinding where
  "unboundBuffer = \<lparr>target = 0, location = 0, buffer = None, offset = 0, bsize = 0\<rparr>"

definition getBufferBinding :: "(buffer_key \<times> BufferBinding) list \<Rightarrow> buffer_key \<Rightarrow> BufferBinding" where
  "getBufferBinding bs k = (case map_of bs k of None \<Rightarrow> unboundBuffer | Some b \<Rightarrow> b)"

definition BufferBinding_neq :: "BufferBinding \<Rightarrow> BufferBinding \<Rightarrow> bool" where
  "BufferBinding_neq a b = (buffer a \<noteq> buffer b)"

definition getTexture :: "(nat \<times> texture_ref option) list \<Rightarrow> nat \<Rightarrow> texture_ref option" where
  "getTexture ts u = (case map_of ts u of None \<Rightarrow> None | Some t \<Rightarrow> t)"

definition getImage :: "limits \<Rightarrow> (nat \<times> ImageBindParameters) list \<Rightarrow> nat \<Rightarrow> ImageBindParameters" where
  "getImage L is u = (case map_of is u of None \<Rightarrow> unboundImage L | Some p \<Rightarrow> p)"

section \<open>Bit sets\<close>

text \<open>
  A \<^verbatim>\<open>std::bitset<N>\<close> is a list of \<open>N\<close> booleans. \<^verbatim>\<open>set(pos, val)\<close> and \<^verbatim>\<open>test(pos)\<close> throw
  \<^verbatim>\<open>std::out_of_range\<close> when \<open>pos\<close> is not below \<open>N\<close>.
\<close>

datatype exn = Out_of_range

definition bitset_set :: "bool list \<Rightarrow> nat \<Rightarrow> bool \<Rightarrow> exn + bool list" where
  "bitset_set m pos v = (if pos < length m then Inr (m[pos := v]) else Inl Out_of_range)"

definition bitset_test :: "bool list \<Rightarrow> nat \<Rightarrow> exn + bool" where
  "bitset_test m pos = (if pos < length m then Inr (m ! pos) else Inl Out_of_range)"

definition bitset_any :: "bool list \<Rightarrow> bool" where
  "bitset_any m = (True \<in> set m)"

record StateDiff_t =
  ssbos :: "bool list"
  ubos :: "bool list"
  acbos :: "bool list"
  tfbos :: "bool list"
  other :: "bool list"
  dtextures :: "bool list"
  dimages :: "bool list"

definition StateDiff_init :: "limits \<Rightarrow> StateDiff_t" where
  "StateDiff_init L =
     \<lparr>ssbos = replicate (ssbos_size L) False, ubos = replicate (ubos_size L) False,
      acbos = replicate (acbos_size L) False, tfbos = replicate (tfbos_size L) False,
      other = replicate (other_size L) False, dtextures = replicate (textures_size L) False,
      dimages = replicate (images_size L) False\<rparr>"

section \<open>The helper functions of BindingState.cpp\<close>

datatype diagnostic =
  Unknown_buffer_target u32
  | Cannot_compile_empty_code
  | Shader_compile_error string string

text \<open>\<^verbatim>\<open>getBufferTargetBit\<close>: the bit, and the warning that the default case emits.\<close>

definition getBufferTargetBit :: "u32 \<Rightarrow> nat \<times> diagnostic list" where
  "getBufferTargetBit t =
     (if t = GL_ARRAY_BUFFER then (0, [])
      else if t = GL_COPY_READ_BUFFER then (1, [])
      else if t = GL_COPY_WRITE_BUFFER then (2, [])
      else if t = GL_DISPATCH_INDIRECT_BUFFER then (3, [])
      else if t = GL_DRAW_INDIRECT_BUFFER then (4, [])
      else if t = GL_ELEMENT_ARRAY_BUFFER then (5, [])
      else if t = GL_PIXEL_PACK_BUFFER then (6, [])
      else if t = GL_PIXEL_UNPACK_BUFFER then (7, [])
      else if t = GL_QUERY_BUFFER then (8, [])
      else if t = GL_TEXTURE_BUFFER then (9, [])
      else (10, [Unknown_buffer_target t]))"

definition getBufferTargetFromBit :: "nat \<Rightarrow> u32" where
  "getBufferTargetFromBit b =
     (if b = 0 then GL_ARRAY_BUFFER
      else if b = 1 then GL_COPY_READ_BUFFER
      else if b = 2 then GL_COPY_WRITE_BUFFER
      else if b = 3 then GL_DISPATCH_INDIRECT_BUFFER
      else if b = 4 then GL_DRAW_INDIRECT_BUFFER
      else if b = 5 then GL_ELEMENT_ARRAY_BUFFER
      else if b = 6 then GL_PIXEL_PACK_BUFFER
      else if b = 7 then GL_PIXEL_UNPACK_BUFFER
      else if b = 8 then GL_QUERY_BUFFER
      else if b = 9 then GL_TEXTURE_BUFFER
      else 0)"

definition getImageAccess :: "ImageBindParameters \<Rightarrow> u32" where
  "getImageAccess p =
     (if \<not> readOperations p then GL_WRITE_ONLY
      else if \<not> writeOperations p then GL_READ_ONLY else GL_READ_WRITE)"

text \<open>\<^verbatim>\<open>convertImageFormat\<close> is only called on parameters whose texture is not null.\<close>

definition convertImageFormat :: "live \<Rightarrow> texture_ref \<Rightarrow> u32" where
  "convertImageFormat h t =
     (if glLocalDataType h t = GL_BYTE \<or> glLocalDataType h t = GL_UNSIGNED_BYTE then
        (if glInternalFormat h t = GL_RED then GL_R8
         else if glInternalFormat h t = GL_RG then GL_RG8
         else if glInternalFormat h t = GL_RGB then GL_RGB8
         else if glInternalFormat h t = GL_RGBA then GL_RGBA8
         else glInternalFormat h t)
      else glInternalFormat h t)"

text \<open>
  The calls that reach the driver, in the order issued. \<^verbatim>\<open>GET_GL_ERROR()\<close> is the error
  probe; the other four bind or unbind one binding point.
\<close>

datatype gl_call =
  Buffer_bind u32 nat buffer_ref
  | Buffer_unbind u32 nat
  | GlBindTextureUnit nat u32
  | GlBindImageTexture nat u32 nat bool nat u32 u32
  | GET_GL_ERROR

text \<open>
  \<^verbatim>\<open>bindOrRemoveBuffer\<close>: the updated map and the driver calls issued. Refreshing the cached
  extent writes through the iterator, so the entry keeps its place.
\<close>

definition bindOrRemoveBuffer ::
  "live \<Rightarrow> (buffer_key \<times> BufferBinding) list \<Rightarrow> u32 \<Rightarrow> nat
     \<Rightarrow> (buffer_key \<times> BufferBinding) list \<times> gl_call list" where
  "bindOrRemoveBuffer h bs t loc =
     (case map_of bs (t, loc) of
        None \<Rightarrow> (bs, [])
      | Some b \<Rightarrow>
          (case buffer b of
             Some r \<Rightarrow>
               (AList.update (t, loc) (b\<lparr>offset := getOffset h r, bsize := getSize h r\<rparr>) bs,
                [Buffer_bind t loc r])
           | None \<Rightarrow> (AList.delete (t, loc) bs, [Buffer_unbind t loc])))"

section \<open>The diff engine\<close>

text \<open>
  \<^verbatim>\<open>makeDiff\<close> threads the mask under construction and the warnings emitted so far through
  its six loops; a throwing \<^verbatim>\<open>set\<close> ends it.
\<close>

type_synonym diff_state = "StateDiff_t \<times> diagnostic list"

definition changed :: "live \<Rightarrow> BufferBinding \<Rightarrow> bool" where
  "changed h e =
     (case buffer e of
        None \<Rightarrow> False
      | Some r \<Rightarrow> offset e \<noteq> getOffset h r \<or> bsize e \<noteq> getSize h r)"

text \<open>The \<^verbatim>\<open>switch\<close> over \<^verbatim>\<open>e.second.target\<close>, with the value to store already computed.\<close>

definition diffBuffer :: "BufferBinding \<Rightarrow> bool \<Rightarrow> diff_state \<Rightarrow> exn + diff_state" where
  "diffBuffer e v ds =
     (case ds of (d, w) \<Rightarrow>
        if target e = GL_SHADER_STORAGE_BUFFER then
          (case bitset_set (ssbos d) (location e) v of
             Inl x \<Rightarrow> Inl x | Inr m \<Rightarrow> Inr (d\<lparr>ssbos := m\<rparr>, w))
        else if target e = GL_UNIFORM_BUFFER then
          (case bitset_set (ubos d) (location e) v of
             Inl x \<Rightarrow> Inl x | Inr m \<Rightarrow> Inr (d\<lparr>ubos := m\<rparr>, w))
        else if target e = GL_ATOMIC_COUNTER_BUFFER then
          (case bitset_set (acbos d) (location e) v of
             Inl x \<Rightarrow> Inl x | Inr m \<Rightarrow> Inr (d\<lparr>acbos := m\<rparr>, w))
        else if target e = GL_TRANSFORM_FEEDBACK_BUFFER then
          (case bitset_set (tfbos d) (location e) v of
             Inl x \<Rightarrow> Inl x | Inr m \<Rightarrow> Inr (d\<lparr>tfbos := m\<rparr>, w))
        else
          (case getBufferTargetBit (target e) of (pos, w') \<Rightarrow>
             (case bitset_set (other d) pos v of
                Inl x \<Rightarrow> Inl x | Inr m \<Rightarrow> Inr (d\<lparr>other := m\<rparr>, w @ w'))))"

text \<open>
  One loop over the buffer map \<open>es\<close> of one snapshot, compared against the buffer map \<open>os\<close>
  of the other snapshot.
\<close>

fun scanBuffers ::
  "live \<Rightarrow> bool \<Rightarrow> (buffer_key \<times> BufferBinding) list \<Rightarrow> (buffer_key \<times> BufferBinding) list
     \<Rightarrow> diff_state \<Rightarrow> exn + diff_state" where
  "scanBuffers h forced os [] ds = Inr ds"
| "scanBuffers h forced os (e # es) ds =
     (case diffBuffer (snd e)
             (forced \<or> changed h (snd e)
                \<or> BufferBinding_neq (getBufferBinding os (key_of (snd e))) (snd e)) ds of
        Inl x \<Rightarrow> Inl x
      | Inr ds' \<Rightarrow> scanBuffers h forced os es ds')"

fun scanTextures ::
  "bool \<Rightarrow> (nat \<times> texture_ref option) list \<Rightarrow> (nat \<times> texture_ref option) list
     \<Rightarrow> diff_state \<Rightarrow> exn + diff_state" where
  "scanTextures forced os [] ds = Inr ds"
| "scanTextures forced os (e # es) ds =
     (case ds of (d, w) \<Rightarrow>
        (case bitset_set (dtextures d) (fst e) (forced \<or> getTexture os (fst e) \<noteq> snd e) of
           Inl x \<Rightarrow> Inl x
         | Inr m \<Rightarrow> scanTextures forced os es (d\<lparr>dtextures := m\<rparr>, w)))"

fun scanImages ::
  "limits \<Rightarrow> bool \<Rightarrow> (nat \<times> ImageBindParameters) list \<Rightarrow> (nat \<times> ImageBindParameters) list
     \<Rightarrow> diff_state \<Rightarrow> exn + diff_state" where
  "scanImages L forced os [] ds = Inr ds"
| "scanImages L forced os (e # es) ds =
     (case ds of (d, w) \<Rightarrow>
        (case bitset_set (dimages d) (fst e) (forced \<or> getImage L os (fst e) \<noteq> snd e) of
           Inl x \<Rightarrow> Inl x
         | Inr m \<Rightarrow> scanImages L forced os es (d\<lparr>dimages := m\<rparr>, w)))"

definition and_then :: "exn + 'a \<Rightarrow> ('a \<Rightarrow> exn + 'b) \<Rightarrow> exn + 'b" where
  "and_then r f = (case r of Inl x \<Rightarrow> Inl x | Inr a \<Rightarrow> f a)"

text \<open>\<^verbatim>\<open>this->makeDiff(target, forced)\<close>; \<open>cur\<close> is \<^verbatim>\<open>*this\<close>.\<close>

definition makeDiff ::
  "limits \<Rightarrow> live \<Rightarrow> BindingState \<Rightarrow> BindingState \<Rightarrow> bool \<Rightarrow> exn + diff_state" where
  "makeDiff L h cur tgt forced =
     and_then (scanBuffers h forced (buffers tgt) (buffers cur) (StateDiff_init L, []))
    (\<lambda>ds. and_then (scanBuffers h forced (buffers cur) (buffers tgt) ds)
    (\<lambda>ds. and_then (scanTextures forced (textures tgt) (textures cur) ds)
    (\<lambda>ds. and_then (scanTextures forced (textures cur) (textures tgt) ds)
    (\<lambda>ds. and_then (scanImages L forced (images tgt) (images cur) ds)
    (\<lambda>ds. scanImages L forced (images cur) (images tgt) ds)))))"

section \<open>The apply step\<close>

text \<open>
  The state of \<^verbatim>\<open>apply\<close> is the snapshot being mutated and the driver calls issued so far.
\<close>

type_synonym apply_state = "BindingState \<times> gl_call list"

definition probe :: "apply_state \<Rightarrow> apply_state" where
  "probe s = (fst s, snd s @ [GET_GL_ERROR])"

text \<open>
  \<^verbatim>\<open>for(uint_fast8_t i=0; i<n; ++i) if(mask.test(i)) body(i);\<close> The counter is an unsigned
  integer of 8 bits (\<^verbatim>\<open>uint_fast8_t\<close> is \<^verbatim>\<open>unsigned char\<close> in the C libraries in use), so
  \<^verbatim>\<open>++i\<close> takes 255 to 0, and a loop whose bound is above 255 ends only if \<^verbatim>\<open>test\<close> throws.
  The result is \<open>None\<close> when the loop does not end; a throwing \<^verbatim>\<open>test\<close> ends the loop and
  the whole of \<^verbatim>\<open>apply\<close>, with the state reached.
\<close>

partial_function (option) for_bits ::
  "bool list \<Rightarrow> (nat \<Rightarrow> apply_state \<Rightarrow> apply_state) \<Rightarrow> nat \<Rightarrow> 8 word \<Rightarrow> apply_state
     \<Rightarrow> (apply_state \<times> exn option) option" where
  "for_bits m body n i s =
     (if unat i < n then
        (case bitset_test m (unat i) of
           Inl x \<Rightarrow> Some (s, Some x)
         | Inr b \<Rightarrow> for_bits m body n (i + 1) (if b then body (unat i) s else s))
      else Some (s, None))"

text \<open>\<^verbatim>\<open>if(mask.any()) { for(i = 0; i < n; ++i) if(mask.test(i)) body(i); GET_GL_ERROR(); }\<close>\<close>

definition phase ::
  "bool list \<Rightarrow> nat \<Rightarrow> (nat \<Rightarrow> apply_state \<Rightarrow> apply_state) \<Rightarrow> apply_state
     \<Rightarrow> (apply_state \<times> exn option) option" where
  "phase m n body s =
     (if bitset_any m then
        (case for_bits m body n 0 s of
           None \<Rightarrow> None
         | Some (s', None) \<Rightarrow> Some (probe s', None)
         | Some (s', Some x) \<Rightarrow> Some (s', Some x))
      else Some (s, None))"

text \<open>The next block of \<^verbatim>\<open>apply\<close>, reached when the blocks before have returned.\<close>

definition then_phase ::
  "(apply_state \<times> exn option) option \<Rightarrow> (apply_state \<Rightarrow> (apply_state \<times> exn option) option)
     \<Rightarrow> (apply_state \<times> exn option) option" where
  "then_phase r f =
     (case r of
        None \<Rightarrow> None
      | Some (s, None) \<Rightarrow> f s
      | Some (s, Some x) \<Rightarrow> Some (s, Some x))"

definition bufferBody :: "live \<Rightarrow> (nat \<Rightarrow> buffer_key) \<Rightarrow> nat \<Rightarrow> apply_state \<Rightarrow> apply_state" where
  "bufferBody h k i s =
     (case bindOrRemoveBuffer h (buffers (fst s)) (fst (k i)) (snd (k i)) of
        (bs, calls) \<Rightarrow> ((fst s)\<lparr>buffers := bs\<rparr>, snd s @ calls))"

definition textureBody :: "live \<Rightarrow> nat \<Rightarrow> apply_state \<Rightarrow> apply_state" where
  "textureBody h i s =
     (case map_of (textures (fst s)) i of
        None \<Rightarrow> s
      | Some (Some t) \<Rightarrow> (fst s, snd s @ [GlBindTextureUnit i (getGLId h t)])
      | Some None \<Rightarrow>
          ((fst s)\<lparr>textures := AList.delete i (textures (fst s))\<rparr>,
           snd s @ [GlBindTextureUnit i 0]))"

definition imageBody :: "live \<Rightarrow> nat \<Rightarrow> apply_state \<Rightarrow> apply_state" where
  "imageBody h i s =
     (case map_of (images (fst s)) i of
        None \<Rightarrow> s
      | Some p \<Rightarrow>
          (case texture p of
             Some t \<Rightarrow>
               (fst s,
                snd s @ [GlBindImageTexture i (getGLId h t) (level p) (multiLayer p) (layer p)
                           (getImageAccess p) (convertImageFormat h t)])
           | None \<Rightarrow>
               ((fst s)\<lparr>images := AList.delete i (images (fst s))\<rparr>,
                snd s @ [GlBindImageTexture i 0 0 False 0 GL_READ_WRITE GL_RGBA32F])))"

text \<open>
  \<^verbatim>\<open>this->apply(diff)\<close>: the snapshot \<open>st\<close> is \<^verbatim>\<open>*this\<close>. The result, when \<^verbatim>\<open>apply\<close> returns,
  is the snapshot and the calls at the end, and the exception if one ended it. The widths of
  the masks and the numbers of units are declared in the absent \<^verbatim>\<open>BindingState.h\<close>: the
  widths are the lengths of the lists, the numbers of units come with the limits. The bound
  \<^verbatim>\<open>diff.other.size()-1\<close> is computed on unsigned integers, but the loop is only reached
  when \<^verbatim>\<open>any()\<close> holds, so that \<^verbatim>\<open>size()\<close> is not 0.
\<close>

definition apply_diff ::
  "limits \<Rightarrow> live \<Rightarrow> StateDiff_t \<Rightarrow> BindingState \<Rightarrow> (apply_state \<times> exn option) option" where
  "apply_diff L h d st =
     then_phase (phase (ssbos d) (length (ssbos d))
                   (bufferBody h (\<lambda>i. (GL_SHADER_STORAGE_BUFFER, i))) (st, [GET_GL_ERROR]))
    (\<lambda>s. then_phase (phase (ubos d) (length (ubos d))
                   (bufferBody h (\<lambda>i. (GL_UNIFORM_BUFFER, i))) s)
    (\<lambda>s. then_phase (phase (acbos d) (length (acbos d))
                   (bufferBody h (\<lambda>i. (GL_ATOMIC_COUNTER_BUFFER, i))) s)
    (\<lambda>s. then_phase (phase (tfbos d) (length (tfbos d))
                   (bufferBody h (\<lambda>i. (GL_TRANSFORM_FEEDBACK_BUFFER, i))) s)
    (\<lambda>s. then_phase (phase (other d) (length (other d) - 1)
                   (bufferBody h (\<lambda>i. (getBufferTargetFromBit i, 0))) s)
    (\<lambda>s. then_phase (phase (dtextures d) (maxTextureBindings L) (textureBody h) s)
    (\<lambda>s. phase (dimages d) (maxImageBindings L) (imageBody h) s))))))"

text \<open>The bind and unbind calls among the driver calls, that is, all but the error probes.\<close>

definition driver_calls :: "gl_call list \<Rightarrow> gl_call list" where
  "driver_calls tr = filter (\<lambda>c. c \<noteq> GET_GL_ERROR) tr"

section \<open>Shader objects\<close>

datatype ShaderStage =
  Vertex | TesselationControl | TesselationEvaluation | Geometry | Fragment | Compute

record ShaderObjectInfo =
  stage :: ShaderStage
  code :: string
  spirv :: "u32 list"
  filename :: string
  shader_defines :: "(string \<times> string) list"

text \<open>The two constructors; the members they do not mention are default-constructed.\<close>

definition ShaderObjectInfo_code :: "ShaderStage \<Rightarrow> string \<Rightarrow> ShaderObjectInfo" where
  "ShaderObjectInfo_code s c = \<lparr>stage = s, code = c, spirv = [], filename = [], shader_defines = []\<rparr>"

definition ShaderObjectInfo_spirv :: "ShaderStage \<Rightarrow> u32 list \<Rightarrow> ShaderObjectInfo" where
  "ShaderObjectInfo_spirv s sp = \<lparr>stage = s, code = [], spirv = sp, filename = [], shader_defines = []\<rparr>"

definition createVertex_spirv :: "u32 list \<Rightarrow> ShaderObjectInfo" where
  "createVertex_spirv sp = ShaderObjectInfo_spirv Vertex sp"

definition createFragment_spirv :: "u32 list \<Rightarrow> ShaderObjectInfo" where
  "createFragment_spirv sp = ShaderObjectInfo_spirv Fragment sp"

definition createGeometry_spirv :: "u32 list \<Rightarrow> ShaderObjectInfo" where
  "createGeometry_spirv sp = ShaderObjectInfo_spirv Geometry sp"

definition createCompute_spirv :: "u32 list \<Rightarrow> ShaderObjectInfo" where
  "createCompute_spirv sp = ShaderObjectInfo_spirv Compute sp"

definition createVertex_code :: "string \<Rightarrow> ShaderObjectInfo" where
  "createVertex_code c = ShaderObjectInfo_code Vertex c"

definition stage_name :: "ShaderStage \<Rightarrow> string" where
  "stage_name s =
     (case s of
        Vertex \<Rightarrow> ''Vertex''
      | TesselationControl \<Rightarrow> ''TesselationControl''
      | TesselationEvaluation \<Rightarrow> ''TesselationEvaluation''
      | Geometry \<Rightarrow> ''Geometry''
      | Fragment \<Rightarrow> ''Fragment''
      | Compute \<Rightarrow> ''Compute'')"

definition stage_macro :: "ShaderStage \<Rightarrow> string" where
  "stage_macro s =
     (case s of
        Vertex \<Rightarrow> ''SG_VERTEX_SHADER''
      | TesselationControl \<Rightarrow> ''SG_TESSELATIONCONTROL_SHADER''
      | TesselationEvaluation \<Rightarrow> ''SG_TESSELATIONEVALUATION_SHADER''
      | Geometry \<Rightarrow> ''SG_GEOMETRY_SHADER''
      | Fragment \<Rightarrow> ''SG_FRAGMENT_SHADER''
      | Compute \<Rightarrow> ''SG_COMPUTE_SHADER'')"

text \<open>
  \<^verbatim>\<open>ShaderObjectInfo::compile\<close>. The GLSL compiler and the device are external: \<open>glslToSpv\<close>
  stands for \<^verbatim>\<open>CompileGlslToSpv\<close> (shader kind, source name, macro definitions, code; an
  error message or the SPIR-V words) and \<open>createShaderModule\<close> for the device call. The
  result is the module handle (\<open>None\<close> for \<^verbatim>\<open>nullptr\<close>), the object afterwards and the
  warnings emitted.
\<close>

definition compile ::
  "(ShaderStage \<Rightarrow> string \<Rightarrow> (string \<times> string) list \<Rightarrow> string \<Rightarrow> string + u32 list)
     \<Rightarrow> (u32 list \<Rightarrow> 'm) \<Rightarrow> ShaderObjectInfo
     \<Rightarrow> 'm option \<times> ShaderObjectInfo \<times> diagnostic list" where
  "compile glslToSpv createShaderModule info =
     (if code info = [] then (None, info, [Cannot_compile_empty_code])
      else if spirv info \<noteq> [] then (Some (createShaderModule (spirv info)), info, [])
      else
        (case glslToSpv (stage info)
                (if filename info \<noteq> [] then filename info else stage_name (stage info))
                ((stage_macro (stage info), []) # shader_defines info) (code info) of
           Inl msg \<Rightarrow>
             (None, info,
              [if filename info = [] then Shader_compile_error msg (code info)
               else Shader_compile_error msg (filename info)])
         | Inr sp \<Rightarrow> (Some (createShaderModule sp), info\<lparr>spirv := sp\<rparr>, [])))"

section \<open>Notions used in the statements\<close>

text \<open>
  The fourteen buffer targets that the diff engine tells apart: the four with a mask of their
  own, and the ten that \<^verbatim>\<open>getBufferTargetBit\<close> enumerates.
\<close>

definition dedicated_targets :: "u32 list" where
  "dedicated_targets =
     [GL_SHADER_STORAGE_BUFFER, GL_UNIFORM_BUFFER, GL_ATOMIC_COUNTER_BUFFER,
      GL_TRANSFORM_FEEDBACK_BUFFER]"

definition enumerated_targets :: "u32 list" where
  "enumerated_targets =
     [GL_ARRAY_BUFFER, GL_COPY_READ_BUFFER, GL_COPY_WRITE_BUFFER, GL_DISPATCH_INDIRECT_BUFFER,
      GL_DRAW_INDIRECT_BUFFER, GL_ELEMENT_ARRAY_BUFFER, GL_PIXEL_PACK_BUFFER,
      GL_PIXEL_UNPACK_BUFFER, GL_QUERY_BUFFER, GL_TEXTURE_BUFFER]"

text \<open>A small configuration and store for the concrete evaluations.\<close>

definition example_limits :: limits where
  "example_limits =
     \<lparr>ssbos_size = 8, ubos_size = 8, acbos_size = 8, tfbos_size = 4, other_size = 11,
      textures_size = 8, images_size = 8, maxTextureBindings = 8, maxImageBindings = 8,
      unboundImage = \<lparr>texture = None, level = 0, layer = 0, multiLayer = False,
                       readOperations = True, writeOperations = True\<rparr>\<rparr>"

definition example_live :: live where
  "example_live =
     \<lparr>getOffset = (\<lambda>r. 0), getSize = (\<lambda>r. 64), getGLId = (\<lambda>t. of_nat t + 1),
      glInternalFormat = (\<lambda>t. GL_RGBA), glLocalDataType = (\<lambda>t. GL_UNSIGNED_BYTE)\<rparr>"

text \<open>An entry of a buffer map, stored under its own key, with cached offset 0.\<close>

definition entry :: "u32 \<Rightarrow> nat \<Rightarrow> buffer_ref option \<Rightarrow> nat \<Rightarrow> buffer_key \<times> BufferBinding" where
  "entry t loc r sz =
     ((t, loc), \<lparr>target = t, location = loc, buffer = r, offset = 0, bsize = sz\<rparr>)"

definition buffers_only :: "(buffer_key \<times> BufferBinding) list \<Rightarrow> BindingState" where
  "buffers_only bs = \<lparr>buffers = bs, textures = [], images = []\<rparr>"

text \<open>
  The place of a driver call in the order that the apply step is meant to follow: the
  category (storage, uniform, atomic-counter, transform-feedback, other buffers, textures,
  images) and the index within it, which for the other buffer targets is the bit of the
  target and otherwise the slot or unit.
\<close>

definition buffer_rank :: "u32 \<Rightarrow> nat \<Rightarrow> nat \<times> nat" where
  "buffer_rank t loc =
     (if t = GL_SHADER_STORAGE_BUFFER then (0, loc)
      else if t = GL_UNIFORM_BUFFER then (1, loc)
      else if t = GL_ATOMIC_COUNTER_BUFFER then (2, loc)
      else if t = GL_TRANSFORM_FEEDBACK_BUFFER then (3, loc)
      else (4, fst (getBufferTargetBit t)))"

definition call_rank :: "gl_call \<Rightarrow> nat \<times> nat" where
  "call_rank c =
     (case c of
        Buffer_bind t loc r \<Rightarrow> buffer_rank t loc
      | Buffer_unbind t loc \<Rightarrow> buffer_rank t loc
      | GlBindTextureUnit u g \<Rightarrow> (5, u)
      | GlBindImageTexture u g lv ml ly ac fm \<Rightarrow> (6, u)
      | GET_GL_ERROR \<Rightarrow> (7, 0))"

definition rank_le :: "nat \<times> nat \<Rightarrow> nat \<times> nat \<Rightarrow> bool" where
  "rank_le a b = (fst a < fst b \<or> (fst a = fst b \<and> snd a \<le> snd b))"

definition in_order :: "gl_call list \<Rightarrow> bool" where
  "in_order cs = sorted_wrt (\<lambda>a b. rank_le (call_rank a) (call_rank b)) cs"

definition ranked_upto :: "nat \<times> nat \<Rightarrow> gl_call list \<Rightarrow> bool" where
  "ranked_upto r tr =
     (in_order (driver_calls tr) \<and> (\<forall>c\<in>set (driver_calls tr). rank_le (call_rank c) r))"

text \<open>
  Two runs of the apply step have the same effect when they leave the same snapshot, have
  issued the same bind and unbind calls in the same order, and ended the same way.
\<close>

definition sim :: "apply_state \<Rightarrow> apply_state \<Rightarrow> bool" where
  "sim s s' = (fst s = fst s' \<and> driver_calls (snd s) = driver_calls (snd s'))"

definition same_effect :: "apply_state \<times> exn option \<Rightarrow> apply_state \<times> exn option \<Rightarrow> bool" where
  "same_effect r r' =
     (fst (fst r) = fst (fst r') \<and> driver_calls (snd (fst r)) = driver_calls (snd (fst r'))
      \<and> snd r = snd r')"

text \<open>
  The seven masks of \<open>StateDiff_t\<close>, and a position of one of them: a slot.
\<close>

datatype category = Storage | Uniform | Atomic | Feedback | Other | Textures | Images

type_synonym slot = "category \<times> nat"

text \<open>
  The mask of a category, the bit at a slot (false outside the mask) and the plain update of
  the bit at a slot.
\<close>

definition mask_of :: "category \<Rightarrow> StateDiff_t \<Rightarrow> bool list" where
  "mask_of c d =
     (case c of
        Storage \<Rightarrow> ssbos d | Uniform \<Rightarrow> ubos d | Atomic \<Rightarrow> acbos d | Feedback \<Rightarrow> tfbos d
      | Other \<Rightarrow> other d | Textures \<Rightarrow> dtextures d | Images \<Rightarrow> dimages d)"

definition bit_at :: "StateDiff_t \<Rightarrow> slot \<Rightarrow> bool" where
  "bit_at d s = (snd s < length (mask_of (fst s) d) \<and> mask_of (fst s) d ! snd s)"

definition write_slot :: "slot \<Rightarrow> bool \<Rightarrow> StateDiff_t \<Rightarrow> StateDiff_t" where
  "write_slot s v d =
     (case fst s of
        Storage \<Rightarrow> d\<lparr>ssbos := (ssbos d)[snd s := v]\<rparr>
      | Uniform \<Rightarrow> d\<lparr>ubos := (ubos d)[snd s := v]\<rparr>
      | Atomic \<Rightarrow> d\<lparr>acbos := (acbos d)[snd s := v]\<rparr>
      | Feedback \<Rightarrow> d\<lparr>tfbos := (tfbos d)[snd s := v]\<rparr>
      | Other \<Rightarrow> d\<lparr>other := (other d)[snd s := v]\<rparr>
      | Textures \<Rightarrow> d\<lparr>dtextures := (dtextures d)[snd s := v]\<rparr>
      | Images \<Rightarrow> d\<lparr>dimages := (dimages d)[snd s := v]\<rparr>)"

text \<open>
  The slot at which \<open>diffBuffer\<close> records a buffer binding: the \<^verbatim>\<open>switch\<close> of \<^verbatim>\<open>makeDiff\<close>
  read as a function of the key.
\<close>

definition buffer_slot :: "buffer_key \<Rightarrow> slot" where
  "buffer_slot k =
     (if fst k = GL_SHADER_STORAGE_BUFFER then (Storage, snd k)
      else if fst k = GL_UNIFORM_BUFFER then (Uniform, snd k)
      else if fst k = GL_ATOMIC_COUNTER_BUFFER then (Atomic, snd k)
      else if fst k = GL_TRANSFORM_FEEDBACK_BUFFER then (Feedback, snd k)
      else (Other, fst (getBufferTargetBit (fst k))))"

definition slot_of :: "BufferBinding \<Rightarrow> slot" where
  "slot_of e = buffer_slot (key_of e)"

text \<open>
  A scan is a sequence of writes of a value to a slot; \<open>run_writes\<close> performs them, with
  the range check of \<^verbatim>\<open>set\<close>. The writes of the loops of \<^verbatim>\<open>makeDiff\<close> follow.
\<close>

fun run_writes :: "(slot \<times> bool) list \<Rightarrow> StateDiff_t \<Rightarrow> exn + StateDiff_t" where
  "run_writes [] d = Inr d"
| "run_writes (sv # ws) d =
     (if snd (fst sv) < length (mask_of (fst (fst sv)) d)
      then run_writes ws (write_slot (fst sv) (snd sv) d) else Inl Out_of_range)"

definition buffer_value ::
  "live \<Rightarrow> bool \<Rightarrow> (buffer_key \<times> BufferBinding) list \<Rightarrow> BufferBinding \<Rightarrow> bool" where
  "buffer_value h forced os e =
     (forced \<or> changed h e \<or> BufferBinding_neq (getBufferBinding os (key_of e)) e)"

definition buffer_writes ::
  "live \<Rightarrow> bool \<Rightarrow> (buffer_key \<times> BufferBinding) list \<Rightarrow> (buffer_key \<times> BufferBinding) list
     \<Rightarrow> (slot \<times> bool) list" where
  "buffer_writes h forced os es =
     map (\<lambda>e. (slot_of (snd e), buffer_value h forced os (snd e))) es"

definition texture_writes ::
  "bool \<Rightarrow> (nat \<times> texture_ref option) list \<Rightarrow> (nat \<times> texture_ref option) list
     \<Rightarrow> (slot \<times> bool) list" where
  "texture_writes forced os es =
     map (\<lambda>e. ((Textures, fst e), forced \<or> getTexture os (fst e) \<noteq> snd e)) es"

definition image_writes ::
  "limits \<Rightarrow> bool \<Rightarrow> (nat \<times> ImageBindParameters) list \<Rightarrow> (nat \<times> ImageBindParameters) list
     \<Rightarrow> (slot \<times> bool) list" where
  "image_writes L forced os es =
     map (\<lambda>e. ((Images, fst e), forced \<or> getImage L os (fst e) \<noteq> snd e)) es"

definition all_writes :: "limits \<Rightarrow> live \<Rightarrow> BindingState \<Rightarrow> BindingState \<Rightarrow> bool \<Rightarrow> (slot \<times> bool) list" where
  "all_writes L h cur tgt forced =
     buffer_writes h forced (buffers tgt) (buffers cur)
     @ buffer_writes h forced (buffers cur) (buffers tgt)
     @ texture_writes forced (textures tgt) (textures cur)
     @ texture_writes forced (textures cur) (textures tgt)
     @ image_writes L forced (images tgt) (images cur)
     @ image_writes L forced (images cur) (images tgt)"

text \<open>
  A regular buffer key has one of the four targets with a mask of their own, or one of the
  ten enumerated targets at location 0; such keys have distinct slots. \<open>slot_key\<close> is the
  key that the loops of the apply step rebuild from a slot.
\<close>

definition regular_key :: "buffer_key \<Rightarrow> bool" where
  "regular_key k =
     (fst k \<in> set dedicated_targets \<or> (fst k \<in> set enumerated_targets \<and> snd k = 0))"

definition slot_key :: "slot \<Rightarrow> buffer_key" where
  "slot_key s =
     (case fst s of
        Storage \<Rightarrow> (GL_SHADER_STORAGE_BUFFER, snd s)
      | Uniform \<Rightarrow> (GL_UNIFORM_BUFFER, snd s)
      | Atomic \<Rightarrow> (GL_ATOMIC_COUNTER_BUFFER, snd s)
      | Feedback \<Rightarrow> (GL_TRANSFORM_FEEDBACK_BUFFER, snd s)
      | _ \<Rightarrow> (getBufferTargetFromBit (snd s), 0))"

text \<open>
  A snapshot is well keyed when its three lists are maps (distinct keys) and every buffer
  binding is stored under its own, regular key. It is within the limits when every bit
  position that the diff engine computes from it exists in the masks.
\<close>

definition well_keyed :: "BindingState \<Rightarrow> bool" where
  "well_keyed st =
     (distinct (map fst (buffers st))
      \<and> (\<forall>e\<in>set (buffers st). key_of (snd e) = fst e \<and> regular_key (fst e))
      \<and> distinct (map fst (textures st)) \<and> distinct (map fst (images st)))"

definition within_limits :: "limits \<Rightarrow> BindingState \<Rightarrow> bool" where
  "within_limits L st =
     ((\<forall>e\<in>set (buffers st).
         snd (slot_of (snd e)) < length (mask_of (fst (slot_of (snd e))) (StateDiff_init L)))
      \<and> (\<forall>e\<in>set (textures st). fst e < textures_size L)
      \<and> (\<forall>e\<in>set (images st). fst e < images_size L))"

text \<open>
  The loops of \<^verbatim>\<open>makeDiff\<close> over the current snapshot alone, and those over the target alone,
  each from the empty mask; the bitwise union of two masks.
\<close>

definition scanCurrent ::
  "limits \<Rightarrow> live \<Rightarrow> BindingState \<Rightarrow> BindingState \<Rightarrow> bool \<Rightarrow> exn + diff_state" where
  "scanCurrent L h cur tgt forced =
     and_then (scanBuffers h forced (buffers tgt) (buffers cur) (StateDiff_init L, []))
    (\<lambda>ds. and_then (scanTextures forced (textures tgt) (textures cur) ds)
    (\<lambda>ds. scanImages L forced (images tgt) (images cur) ds))"

definition scanTarget ::
  "limits \<Rightarrow> live \<Rightarrow> BindingState \<Rightarrow> BindingState \<Rightarrow> bool \<Rightarrow> exn + diff_state" where
  "scanTarget L h cur tgt forced =
     and_then (scanBuffers h forced (buffers cur) (buffers tgt) (StateDiff_init L, []))
    (\<lambda>ds. and_then (scanTextures forced (textures cur) (textures tgt) ds)
    (\<lambda>ds. scanImages L forced (images cur) (images tgt) ds))"

definition bitset_or :: "bool list \<Rightarrow> bool list \<Rightarrow> bool list" where
  "bitset_or a b = map (\<lambda>xy. fst xy \<or> snd xy) (zip a b)"

definition StateDiff_or :: "StateDiff_t \<Rightarrow> StateDiff_t \<Rightarrow> StateDiff_t" where
  "StateDiff_or d d' =
     \<lparr>ssbos = bitset_or (ssbos d) (ssbos d'), ubos = bitset_or (ubos d) (ubos d'),
      acbos = bitset_or (acbos d) (acbos d'), tfbos = bitset_or (tfbos d) (tfbos d'),
      other = bitset_or (other d) (other d'), dtextures = bitset_or (dtextures d) (dtextures d'),
      dimages = bitset_or (dimages d) (dimages d')\<rparr>"

text \<open>
  Two snapshots cache the same extent wherever they bind the same handle at the same key.
\<close>

definition same_extent :: "BindingState \<Rightarrow> BindingState \<Rightarrow> bool" where
  "same_extent cur tgt =
     (\<forall>e\<in>set (buffers cur). \<forall>e'\<in>set (buffers tgt).
        fst e = fst e' \<and> buffer (snd e) = buffer (snd e') \<longrightarrow>
        offset (snd e) = offset (snd e') \<and> bsize (snd e) = bsize (snd e'))"

text \<open>
  The writes of \<open>scanCurrent\<close>.
\<close>

definition current_writes :: "limits \<Rightarrow> live \<Rightarrow> BindingState \<Rightarrow> BindingState \<Rightarrow> bool \<Rightarrow> (slot \<times> bool) list" where
  "current_writes L h cur tgt forced =
     buffer_writes h forced (buffers tgt) (buffers cur)
     @ texture_writes forced (textures tgt) (textures cur)
     @ image_writes L forced (images tgt) (images cur)"

text \<open>
  The slots that the bindings of a snapshot occupy.
\<close>

definition slots :: "BindingState \<Rightarrow> slot set" where
  "slots st =
     (\<lambda>e. slot_of (snd e)) ` set (buffers st)
     \<union> (\<lambda>e. (Textures, fst e)) ` set (textures st)
     \<union> (\<lambda>e. (Images, fst e)) ` set (images st)"

text \<open>
  A key of any category, its slot, and what it means for two snapshots to bind different
  resources at a key and the same everywhere else. A snapshot has no stale binding when
  every cached extent is the live one.
\<close>

datatype binding_key = Buffer_key buffer_key | Texture_unit nat | Image_unit nat

definition key_slot :: "binding_key \<Rightarrow> slot" where
  "key_slot K =
     (case K of
        Buffer_key k \<Rightarrow> buffer_slot k
      | Texture_unit u \<Rightarrow> (Textures, u)
      | Image_unit u \<Rightarrow> (Images, u))"

definition differs_at :: "limits \<Rightarrow> BindingState \<Rightarrow> BindingState \<Rightarrow> binding_key \<Rightarrow> bool" where
  "differs_at L cur tgt K =
     (case K of
        Buffer_key k \<Rightarrow>
          BufferBinding_neq (getBufferBinding (buffers cur) k) (getBufferBinding (buffers tgt) k)
      | Texture_unit u \<Rightarrow> getTexture (textures cur) u \<noteq> getTexture (textures tgt) u
      | Image_unit u \<Rightarrow> getImage L (images cur) u \<noteq> getImage L (images tgt) u)"

definition same_except :: "BindingState \<Rightarrow> BindingState \<Rightarrow> binding_key \<Rightarrow> bool" where
  "same_except cur tgt K =
     ((\<forall>k\<in>fst ` (set (buffers cur) \<union> set (buffers tgt)).
         Buffer_key k \<noteq> K \<longrightarrow> map_of (buffers cur) k = map_of (buffers tgt) k)
      \<and> (\<forall>u\<in>fst ` (set (textures cur) \<union> set (textures tgt)).
         Texture_unit u \<noteq> K \<longrightarrow> map_of (textures cur) u = map_of (textures tgt) u)
      \<and> (\<forall>u\<in>fst ` (set (images cur) \<union> set (images tgt)).
         Image_unit u \<noteq> K \<longrightarrow> map_of (images cur) u = map_of (images tgt) u))"

definition no_stale :: "live \<Rightarrow> BindingState \<Rightarrow> bool" where
  "no_stale h st = (\<forall>e\<in>set (buffers st). \<not> changed h (snd e))"

text \<open>
  Two enumerants that are not among the fourteen targets: the buffer target of OpenGL 4.6
  that \<^verbatim>\<open>getBufferTargetBit\<close> does not list, and a binding query mistaken for a target.
\<close>

definition GL_PARAMETER_BUFFER :: u32 where "GL_PARAMETER_BUFFER = 0x80EE"

definition GL_DRAW_INDIRECT_BUFFER_BINDING :: u32 where "GL_DRAW_INDIRECT_BUFFER_BINDING = 0x8F43"

text \<open>
  What \<open>bindOrRemoveBuffer\<close> and the bodies of the texture and image loops leave of an
  entry: a buffer binding with a buffer keeps it with the extent read from the buffer, a
  texture or image binding with a texture is kept as it is, and an entry without a resource
  is erased (\<open>None\<close>).
\<close>

definition settle :: "live \<Rightarrow> BufferBinding \<Rightarrow> BufferBinding option" where
  "settle h e =
     (case buffer e of
        None \<Rightarrow> None
      | Some r \<Rightarrow> Some (e\<lparr>offset := getOffset h r, bsize := getSize h r\<rparr>))"

definition settle_texture :: "texture_ref option \<Rightarrow> texture_ref option option" where
  "settle_texture t = (case t of None \<Rightarrow> None | Some x \<Rightarrow> Some t)"

definition settle_image :: "ImageBindParameters \<Rightarrow> ImageBindParameters option" where
  "settle_image p = (case texture p of None \<Rightarrow> None | Some x \<Rightarrow> Some p)"

text \<open>
  The driver calls that the apply step issues for a key at which it finds a set bit, read
  off the three branches of \<open>bindOrRemoveBuffer\<close> and of the loop bodies: nothing when
  the snapshot has no entry under the key, one bind call when the entry holds a resource,
  one unbind call when it holds none.
\<close>

definition expected_calls :: "live \<Rightarrow> BindingState \<Rightarrow> binding_key \<Rightarrow> gl_call list" where
  "expected_calls h st K =
     (case K of
        Buffer_key k \<Rightarrow>
          (case map_of (buffers st) k of
             None \<Rightarrow> []
           | Some e \<Rightarrow>
               [case buffer e of
                  Some r \<Rightarrow> Buffer_bind (fst k) (snd k) r
                | None \<Rightarrow> Buffer_unbind (fst k) (snd k)])
      | Texture_unit u \<Rightarrow>
          (case map_of (textures st) u of
             None \<Rightarrow> []
           | Some t \<Rightarrow> [GlBindTextureUnit u (case t of Some x \<Rightarrow> getGLId h x | None \<Rightarrow> 0)])
      | Image_unit u \<Rightarrow>
          (case map_of (images st) u of
             None \<Rightarrow> []
           | Some p \<Rightarrow>
               [case texture p of
                  Some x \<Rightarrow>
                    GlBindImageTexture u (getGLId h x) (level p) (multiLayer p) (layer p)
                      (getImageAccess p) (convertImageFormat h x)
                | None \<Rightarrow> GlBindImageTexture u 0 0 False 0 GL_READ_WRITE GL_RGBA32F]))"

text \<open>
  The key that a driver call addresses, and the calls of a trace that address a given key.
\<close>

definition call_key :: "gl_call \<Rightarrow> binding_key option" where
  "call_key c =
     (case c of
        Buffer_bind t loc r \<Rightarrow> Some (Buffer_key (t, loc))
      | Buffer_unbind t loc \<Rightarrow> Some (Buffer_key (t, loc))
      | GlBindTextureUnit u g \<Rightarrow> Some (Texture_unit u)
      | GlBindImageTexture u g lv ml ly ac fm \<Rightarrow> Some (Image_unit u)
      | GET_GL_ERROR \<Rightarrow> None)"

definition calls_at :: "binding_key \<Rightarrow> gl_call list \<Rightarrow> gl_call list" where
  "calls_at K tr = filter (\<lambda>c. call_key c = Some K) tr"

text \<open>
  The state of the apply step after the keys \<open>V\<close> have been visited, starting from the
  snapshot \<open>st0\<close>: the entries under the visited keys are settled and the others untouched,
  and the trace holds the expected calls for the visited keys and none for the others.
\<close>

definition applied :: "live \<Rightarrow> BindingState \<Rightarrow> binding_key set \<Rightarrow> apply_state \<Rightarrow> bool" where
  "applied h st0 V s =
     ((\<forall>k. map_of (buffers (fst s)) k =
             (if Buffer_key k \<in> V then Option.bind (map_of (buffers st0) k) (settle h)
              else map_of (buffers st0) k))
      \<and> (\<forall>u. map_of (textures (fst s)) u =
             (if Texture_unit u \<in> V then Option.bind (map_of (textures st0) u) settle_texture
              else map_of (textures st0) u))
      \<and> (\<forall>u. map_of (images (fst s)) u =
             (if Image_unit u \<in> V then Option.bind (map_of (images st0) u) settle_image
              else map_of (images st0) u))
      \<and> (\<forall>K. calls_at K (snd s) = (if K \<in> V then expected_calls h st0 K else [])))"

text \<open>
  The keys that the seven loops of \<open>apply\<close> visit for a mask: one key for every set bit,
  except that the loop over the other mask stops before its last position and the loops
  over textures and images stop at \<open>getMaxTextureBindings()\<close> and
  \<open>getMaxImageBindings()\<close>.
\<close>

definition applied_keys :: "limits \<Rightarrow> StateDiff_t \<Rightarrow> binding_key set" where
  "applied_keys L d =
     (\<lambda>i. Buffer_key (GL_SHADER_STORAGE_BUFFER, i)) ` {i. i < length (ssbos d) \<and> ssbos d ! i}
     \<union> (\<lambda>i. Buffer_key (GL_UNIFORM_BUFFER, i)) ` {i. i < length (ubos d) \<and> ubos d ! i}
     \<union> (\<lambda>i. Buffer_key (GL_ATOMIC_COUNTER_BUFFER, i)) ` {i. i < length (acbos d) \<and> acbos d ! i}
     \<union> (\<lambda>i. Buffer_key (GL_TRANSFORM_FEEDBACK_BUFFER, i)) ` {i. i < length (tfbos d) \<and> tfbos d ! i}
     \<union> (\<lambda>i. Buffer_key (getBufferTargetFromBit i, 0)) ` {i. i < length (other d) - 1 \<and> other d ! i}
     \<union> Texture_unit ` {i. i < maxTextureBindings L \<and> dtextures d ! i}
     \<union> Image_unit ` {i. i < maxImageBindings L \<and> dimages d ! i}"

text \<open>
  Assumptions on the declarations of the absent \<^verbatim>\<open>BindingState.h\<close>: the other mask has the
  11 positions that \<open>getBufferTargetBit\<close> returns, the texture and image masks are at
  least as wide as the number of units, and the widths of the four dedicated masks and the
  numbers of units are at most 255, the largest bound that the loop counter of \<^verbatim>\<open>apply\<close>
  reaches. A snapshot is applicable when its texture and image units are below the numbers
  of units, so that the loops of \<^verbatim>\<open>apply\<close> reach them.
\<close>

definition limits_ok :: "limits \<Rightarrow> bool" where
  "limits_ok L =
     (other_size L = 11 \<and> maxTextureBindings L \<le> textures_size L
      \<and> maxImageBindings L \<le> images_size L
      \<and> ssbos_size L \<le> 255 \<and> ubos_size L \<le> 255 \<and> acbos_size L \<le> 255
      \<and> tfbos_size L \<le> 255 \<and> maxTextureBindings L \<le> 255 \<and> maxImageBindings L \<le> 255)"

definition applicable :: "limits \<Rightarrow> BindingState \<Rightarrow> bool" where
  "applicable L st =
     ((\<forall>e\<in>set (textures st). fst e < maxTextureBindings L)
      \<and> (\<forall>e\<in>set (images st). fst e < maxImageBindings L))"



text \<open>
  The entry of a snapshot under a key of any category, and what the apply step leaves of
  it.
\<close>

datatype binding =
  Buffer_binding BufferBinding
  | Texture_binding "texture_ref option"
  | Image_binding ImageBindParameters

definition lookup :: "BindingState \<Rightarrow> binding_key \<Rightarrow> binding option" where
  "lookup st K =
     (case K of
        Buffer_key k \<Rightarrow> map_option Buffer_binding (map_of (buffers st) k)
      | Texture_unit u \<Rightarrow> map_option Texture_binding (map_of (textures st) u)
      | Image_unit u \<Rightarrow> map_option Image_binding (map_of (images st) u))"

definition settled :: "live \<Rightarrow> binding \<Rightarrow> binding option" where
  "settled h b =
     (case b of
        Buffer_binding e \<Rightarrow> map_option Buffer_binding (settle h e)
      | Texture_binding t \<Rightarrow> map_option Texture_binding (settle_texture t)
      | Image_binding p \<Rightarrow> map_option Image_binding (settle_image p))"

text \<open>
  The loops of \<^verbatim>\<open>apply\<close> read as visits of the positions \<open>0\<close> to \<open>n - 1\<close> in order, without
  a counter: \<open>visit_bits\<close> runs over a list of positions, \<open>visit_phase\<close> is one block and
  \<open>visit_all\<close> the seven blocks. The apply step is compared with them below: it agrees
  with them whenever it returns, and it returns when the counter reaches every bound.
\<close>

fun visit_bits ::
  "bool list \<Rightarrow> (nat \<Rightarrow> apply_state \<Rightarrow> apply_state) \<Rightarrow> nat list \<Rightarrow> apply_state
     \<Rightarrow> apply_state \<times> exn option" where
  "visit_bits m body [] s = (s, None)"
| "visit_bits m body (i # is) s =
     (case bitset_test m i of
        Inl x \<Rightarrow> (s, Some x)
      | Inr b \<Rightarrow> visit_bits m body is (if b then body i s else s))"

definition visit_phase ::
  "bool list \<Rightarrow> nat \<Rightarrow> (nat \<Rightarrow> apply_state \<Rightarrow> apply_state) \<Rightarrow> apply_state
     \<Rightarrow> apply_state \<times> exn option" where
  "visit_phase m n body s =
     (if bitset_any m then
        (case visit_bits m body [0..<n] s of
           (s', None) \<Rightarrow> (probe s', None)
         | (s', Some x) \<Rightarrow> (s', Some x))
      else (s, None))"

definition visit_then ::
  "apply_state \<times> exn option \<Rightarrow> (apply_state \<Rightarrow> apply_state \<times> exn option)
     \<Rightarrow> apply_state \<times> exn option" where
  "visit_then r f = (case r of (s, None) \<Rightarrow> f s | (s, Some x) \<Rightarrow> (s, Some x))"

definition visit_all ::
  "limits \<Rightarrow> live \<Rightarrow> StateDiff_t \<Rightarrow> BindingState \<Rightarrow> apply_state \<times> exn option" where
  "visit_all L h d st =
     visit_then (visit_phase (ssbos d) (length (ssbos d))
                   (bufferBody h (\<lambda>i. (GL_SHADER_STORAGE_BUFFER, i))) (st, [GET_GL_ERROR]))
    (\<lambda>s. visit_then (visit_phase (ubos d) (length (ubos d))
                   (bufferBody h (\<lambda>i. (GL_UNIFORM_BUFFER, i))) s)
    (\<lambda>s. visit_then (visit_phase (acbos d) (length (acbos d))
                   (bufferBody h (\<lambda>i. (GL_ATOMIC_COUNTER_BUFFER, i))) s)
    (\<lambda>s. visit_then (visit_phase (tfbos d) (length (tfbos d))
                   (bufferBody h (\<lambda>i. (GL_TRANSFORM_FEEDBACK_BUFFER, i))) s)
    (\<lambda>s. visit_then (visit_phase (other d) (length (other d) - 1)
                   (bufferBody h (\<lambda>i. (getBufferTargetFromBit i, 0))) s)
    (\<lambda>s. visit_then (visit_phase (dtextures d) (maxTextureBindings L) (textureBody h) s)
    (\<lambda>s. visit_phase (dimages d) (maxImageBindings L) (imageBody h) s))))))"

text \<open>
  The bounds of the seven loops of \<^verbatim>\<open>apply\<close> for a mask: they are within the range of the
  loop counter when none is above 255.
\<close>

definition counter_range :: "limits \<Rightarrow> StateDiff_t \<Rightarrow> bool" where
  "counter_range L d =
     (length (ssbos d) \<le> 255 \<and> length (ubos d) \<le> 255 \<and> length (acbos d) \<le> 255
      \<and> length (tfbos d) \<le> 255 \<and> length (other d) - 1 \<le> 255
      \<and> maxTextureBindings L \<le> 255 \<and> maxImageBindings L \<le> 255)"

section \<open>Properties of the helper functions\<close>

lemmas gl_buffer_targets =
  GL_ARRAY_BUFFER_def GL_ELEMENT_ARRAY_BUFFER_def GL_PIXEL_PACK_BUFFER_def
  GL_PIXEL_UNPACK_BUFFER_def GL_UNIFORM_BUFFER_def GL_TEXTURE_BUFFER_def
  GL_TRANSFORM_FEEDBACK_BUFFER_def GL_COPY_READ_BUFFER_def GL_COPY_WRITE_BUFFER_def
  GL_DRAW_INDIRECT_BUFFER_def GL_SHADER_STORAGE_BUFFER_def GL_DISPATCH_INDIRECT_BUFFER_def
  GL_QUERY_BUFFER_def GL_ATOMIC_COUNTER_BUFFER_def

lemma getBufferTargetBit_unknown:
  "t \<notin> set enumerated_targets \<Longrightarrow> getBufferTargetBit t = (10, [Unknown_buffer_target t])"
  by (simp add: getBufferTargetBit_def enumerated_targets_def)

section \<open>Unknown buffer targets\<close>

text \<open>
  C8. A binding whose target is none of the fourteen recognized ones is recorded by the diff
  engine at position 10 of the shared \<open>other\<close> mask (declared with its 11 positions): the
  \<^verbatim>\<open>switch\<close> returns the mask with the value stored at position 10 and the warning naming
  the target appended, no exception is raised, the scan goes on with the remaining entries,
  and it returns this mask and warning when there are none.
\<close>

theorem unknown_target_maps_to_sentinel:
  assumes "target (snd e) \<notin> set dedicated_targets"
    and "target (snd e) \<notin> set enumerated_targets"
    and "length (other d) = 11"
  shows "diffBuffer (snd e) v (d, w) =
           Inr (d\<lparr>other := (other d)[10 := v]\<rparr>, w @ [Unknown_buffer_target (target (snd e))])
         \<and> scanBuffers h forced os (e # es) (d, w) =
             scanBuffers h forced os es
               (d\<lparr>other := (other d)
                    [10 := forced \<or> changed h (snd e)
                             \<or> BufferBinding_neq (getBufferBinding os (key_of (snd e))) (snd e)]\<rparr>,
                w @ [Unknown_buffer_target (target (snd e))])
         \<and> scanBuffers h forced os [e] (d, w) =
             Inr (d\<lparr>other := (other d)
                    [10 := forced \<or> changed h (snd e)
                             \<or> BufferBinding_neq (getBufferBinding os (key_of (snd e))) (snd e)]\<rparr>,
                  w @ [Unknown_buffer_target (target (snd e))])"
  using assms
  by (simp add: diffBuffer_def dedicated_targets_def getBufferTargetBit_unknown bitset_set_def)

theorem unknown_target_maps_to_sentinel_witness:
  "target (snd (entry 1 0 (Some 3) 64)) \<notin> set dedicated_targets
   \<and> target (snd (entry 1 0 (Some 3) 64)) \<notin> set enumerated_targets
   \<and> length (other (StateDiff_init example_limits)) = 11
   \<and> diffBuffer (snd (entry 1 0 (Some 3) 64)) True (StateDiff_init example_limits, []) =
       Inr ((StateDiff_init example_limits)
              \<lparr>other := (other (StateDiff_init example_limits))[10 := True]\<rparr>,
            [Unknown_buffer_target 1])
   \<and> scanBuffers example_live False [] [entry 1 0 (Some 3) 64, entry 1 0 (Some 3) 64]
         (StateDiff_init example_limits, []) =
       Inr ((StateDiff_init example_limits)
              \<lparr>other := (other (StateDiff_init example_limits))[10 := True]\<rparr>,
            [Unknown_buffer_target 1, Unknown_buffer_target 1])"
proof -
  have a: "target (snd (entry 1 0 (Some 3) 64)) \<notin> set dedicated_targets"
    by (simp add: entry_def dedicated_targets_def gl_buffer_targets)
  have b: "target (snd (entry 1 0 (Some 3) 64)) \<notin> set enumerated_targets"
    by (simp add: entry_def enumerated_targets_def gl_buffer_targets)
  have c: "length (other (StateDiff_init example_limits)) = 11"
    by (simp add: StateDiff_init_def example_limits_def)
  let ?d1 = "(StateDiff_init example_limits)
              \<lparr>other := (other (StateDiff_init example_limits))[10 := True]\<rparr>"
  have c1: "length (other ?d1) = 11" using c by simp
  have n: "BufferBinding_neq (getBufferBinding [] (key_of (snd (entry 1 0 (Some 3) 64))))
             (snd (entry 1 0 (Some 3) 64))"
    by (simp add: entry_def BufferBinding_neq_def getBufferBinding_def unboundBuffer_def)
  show ?thesis
    using unknown_target_maps_to_sentinel [OF a b c, of True "[]" example_live False "[]"
        "[entry 1 0 (Some 3) 64]"]
      unknown_target_maps_to_sentinel [OF a b c1, of True "[Unknown_buffer_target 1]"
        example_live False "[]" "[]"]
      a b c n
    by (simp add: entry_def)
qed

section \<open>Compiling a shader object\<close>

text \<open>
  C9. \<open>compile\<close> returns no module and warns whenever the stored GLSL code is empty,
  whatever the SPIR-V member holds; an object made by \<open>createVertex_spirv\<close> has empty code,
  so \<open>compile\<close> never reaches the branch that reuses its SPIR-V.
\<close>

theorem compile_empty_code:
  "(code info = [] \<longrightarrow>
      compile glslToSpv createShaderModule info = (None, info, [Cannot_compile_empty_code]))
   \<and> compile glslToSpv createShaderModule (createVertex_spirv sp) =
       (None, createVertex_spirv sp, [Cannot_compile_empty_code])"
  by (simp add: compile_def createVertex_spirv_def ShaderObjectInfo_spirv_def)

theorem compile_empty_code_witness:
  "code (createFragment_spirv [0x07230203]) = []
   \<and> compile (\<lambda>k n ms c. Inr [0x07230203]) (\<lambda>sp. length sp) (createFragment_spirv [0x07230203]) =
       (None, createFragment_spirv [0x07230203], [Cannot_compile_empty_code])"
  using compile_empty_code [of "createFragment_spirv [0x07230203]" "\<lambda>k n ms c. Inr [0x07230203]"
      "\<lambda>sp. length sp" "[]"]
  by (simp add: createFragment_spirv_def ShaderObjectInfo_spirv_def)

section \<open>The order of the calls of the visits\<close>

lemma driver_calls_append [simp]: "driver_calls (a @ b) = driver_calls a @ driver_calls b"
  by (simp add: driver_calls_def)

lemma rank_le_refl [simp]: "rank_le a a"
  by (simp add: rank_le_def)

lemma rank_le_trans: "rank_le a b \<Longrightarrow> rank_le b c \<Longrightarrow> rank_le a c"
  by (auto simp: rank_le_def)

lemma ranked_upto_mono: "ranked_upto r tr \<Longrightarrow> rank_le r r' \<Longrightarrow> ranked_upto r' tr"
  by (auto simp: ranked_upto_def intro: rank_le_trans)

lemma in_order_same_rank:
  "(\<forall>c\<in>set cs. call_rank c = r) \<Longrightarrow> in_order cs"
  by (induction cs) (auto simp: in_order_def)

lemma ranked_upto_append:
  assumes "ranked_upto r tr" and "\<forall>c\<in>set (driver_calls cs). call_rank c = r'" and "rank_le r r'"
  shows "ranked_upto r' (tr @ cs)"
proof -
  have 1: "in_order (driver_calls cs)" using assms(2) by (rule in_order_same_rank)
  have 2: "\<And>x. x \<in> set (driver_calls tr) \<Longrightarrow> rank_le (call_rank x) r'"
    using assms(1,3) unfolding ranked_upto_def by (blast intro: rank_le_trans)
  have 3: "in_order (driver_calls tr)" using assms(1) by (simp add: ranked_upto_def)
  show ?thesis
    using 1 2 3 assms(2) by (auto simp: ranked_upto_def in_order_def sorted_wrt_append)
qed

lemma visit_bits_ranked_upto:
  assumes step: "\<And>i s. \<exists>cs. snd (body i s) = snd s @ cs \<and> (\<forall>c\<in>set (driver_calls cs). call_rank c = rk i)"
    and mono: "\<And>i j. i \<le> j \<Longrightarrow> rank_le (rk i) (rk j)"
    and top: "\<And>i. rank_le (rk i) R"
  shows "sorted is \<Longrightarrow> ranked_upto r (snd s) \<Longrightarrow> (\<forall>i\<in>set is. rank_le r (rk i)) \<Longrightarrow> rank_le r R
         \<Longrightarrow> ranked_upto R (snd (fst (visit_bits m body is s)))"
proof (induction "is" arbitrary: r s)
  case Nil
  then show ?case by (auto intro: ranked_upto_mono)
next
  case (Cons i "is")
  show ?case
  proof (cases "bitset_test m i")
    case (Inl x)
    then show ?thesis using Cons.prems by (auto intro: ranked_upto_mono)
  next
    case (Inr b)
    let ?s = "if b then body i s else s"
    have ri: "rank_le r (rk i)" using Cons.prems by simp
    have "ranked_upto (rk i) (snd ?s)"
    proof (cases b)
      case True
      obtain cs where cs: "snd (body i s) = snd s @ cs" "\<forall>c\<in>set (driver_calls cs). call_rank c = rk i"
        using step by blast
      show ?thesis using True cs ranked_upto_append [OF Cons.prems(2) cs(2) ri] by simp
    next
      case False
      then show ?thesis using Cons.prems(2) ri by (auto intro: ranked_upto_mono)
    qed
    moreover have "\<forall>j\<in>set is. rank_le (rk i) (rk j)"
      using Cons.prems(1) by (auto intro: mono)
    moreover have "sorted is" using Cons.prems(1) by simp
    ultimately have "ranked_upto R (snd (fst (visit_bits m body is ?s)))"
      using Cons.IH top by blast
    then show ?thesis using Inr by simp
  qed
qed

lemma probe_ranked_upto: "ranked_upto r (snd s) \<Longrightarrow> ranked_upto r (snd (probe s))"
  by (simp add: ranked_upto_def probe_def driver_calls_def)

lemma visit_phase_ranked_upto:
  assumes step: "\<And>i s. \<exists>cs. snd (body i s) = snd s @ cs \<and> (\<forall>c\<in>set (driver_calls cs). call_rank c = (k, g i))"
    and mono: "\<And>i j. i \<le> j \<Longrightarrow> g i \<le> g j"
    and "k < k'"
    and "ranked_upto (k, 0) (snd s)"
  shows "ranked_upto (k', 0) (snd (fst (visit_phase m n body s)))"
proof (cases "bitset_any m")
  case False
  then show ?thesis using assms(3,4) by (auto simp: visit_phase_def rank_le_def intro: ranked_upto_mono)
next
  case True
  have "ranked_upto (k', 0) (snd (fst (visit_bits m body [0..<n] s)))"
    by (rule visit_bits_ranked_upto [where rk = "\<lambda>i. (k, g i)" and r = "(k, 0)"])
       (use assms in \<open>auto simp: rank_le_def\<close>)
  then show ?thesis using True
    by (auto simp: visit_phase_def probe_ranked_upto split: prod.splits option.splits)
qed

lemma bufferBody_calls:
  "\<exists>cs. snd (bufferBody h key i s) = snd s @ cs
     \<and> (\<forall>c\<in>set (driver_calls cs). call_rank c = buffer_rank (fst (key i)) (snd (key i)))"
  by (auto simp: bufferBody_def bindOrRemoveBuffer_def driver_calls_def call_rank_def
      split: option.splits)

lemma textureBody_calls:
  "\<exists>cs. snd (textureBody h i s) = snd s @ cs \<and> (\<forall>c\<in>set (driver_calls cs). call_rank c = (5, i))"
  by (auto simp: textureBody_def driver_calls_def call_rank_def split: option.splits)

lemma imageBody_calls:
  "\<exists>cs. snd (imageBody h i s) = snd s @ cs \<and> (\<forall>c\<in>set (driver_calls cs). call_rank c = (6, i))"
  by (auto simp: imageBody_def driver_calls_def call_rank_def split: option.splits)

lemma other_rank:
  "buffer_rank (getBufferTargetFromBit i) 0 = (4, min i 10)"
  by (simp add: buffer_rank_def getBufferTargetFromBit_def getBufferTargetBit_def gl_buffer_targets)

lemma visit_then_ranked_upto:
  assumes "ranked_upto (k, 0) (snd (fst r))" and "k \<le> 7"
    and "\<And>s. ranked_upto (k, 0) (snd s) \<Longrightarrow> ranked_upto (7, 0) (snd (fst (f s)))"
  shows "ranked_upto (7, 0) (snd (fst (visit_then r f)))"
proof (cases r)
  case (Pair s e)
  show ?thesis
  proof (cases e)
    case None
    then show ?thesis using Pair assms by (simp add: visit_then_def)
  next
    case (Some x)
    have "rank_le (k, 0) (7, 0)" using assms(2) by (auto simp: rank_le_def)
    then show ?thesis using Pair Some assms(1) by (auto simp: visit_then_def intro: ranked_upto_mono)
  qed
qed

lemma visit_all_ranked_upto: "ranked_upto (7, 0) (snd (fst (visit_all L h d st)))"
proof -
  have p0: "ranked_upto (0, 0) (snd (st, [GET_GL_ERROR]))"
    by (simp add: ranked_upto_def driver_calls_def in_order_def)
  have p1: "\<And>s m n. ranked_upto (0, 0) (snd s) \<Longrightarrow>
      ranked_upto (1, 0) (snd (fst (visit_phase m n (bufferBody h (\<lambda>i. (GL_SHADER_STORAGE_BUFFER, i))) s)))"
    by (rule visit_phase_ranked_upto [where k = 0 and g = "\<lambda>i. i"])
       (use bufferBody_calls [where key = "\<lambda>i. (GL_SHADER_STORAGE_BUFFER, i)"] in
         \<open>simp_all add: buffer_rank_def\<close>)
  have p2: "\<And>s m n. ranked_upto (1, 0) (snd s) \<Longrightarrow>
      ranked_upto (2, 0) (snd (fst (visit_phase m n (bufferBody h (\<lambda>i. (GL_UNIFORM_BUFFER, i))) s)))"
    by (rule visit_phase_ranked_upto [where k = 1 and g = "\<lambda>i. i"])
       (use bufferBody_calls [where key = "\<lambda>i. (GL_UNIFORM_BUFFER, i)"] in
         \<open>simp_all add: buffer_rank_def gl_buffer_targets\<close>)
  have p3: "\<And>s m n. ranked_upto (2, 0) (snd s) \<Longrightarrow>
      ranked_upto (3, 0) (snd (fst (visit_phase m n (bufferBody h (\<lambda>i. (GL_ATOMIC_COUNTER_BUFFER, i))) s)))"
    by (rule visit_phase_ranked_upto [where k = 2 and g = "\<lambda>i. i"])
       (use bufferBody_calls [where key = "\<lambda>i. (GL_ATOMIC_COUNTER_BUFFER, i)"] in
         \<open>simp_all add: buffer_rank_def gl_buffer_targets\<close>)
  have p4: "\<And>s m n. ranked_upto (3, 0) (snd s) \<Longrightarrow>
      ranked_upto (4, 0) (snd (fst (visit_phase m n (bufferBody h (\<lambda>i. (GL_TRANSFORM_FEEDBACK_BUFFER, i))) s)))"
    by (rule visit_phase_ranked_upto [where k = 3 and g = "\<lambda>i. i"])
       (use bufferBody_calls [where key = "\<lambda>i. (GL_TRANSFORM_FEEDBACK_BUFFER, i)"] in
         \<open>simp_all add: buffer_rank_def gl_buffer_targets\<close>)
  have p5: "\<And>s m n. ranked_upto (4, 0) (snd s) \<Longrightarrow>
      ranked_upto (5, 0) (snd (fst (visit_phase m n (bufferBody h (\<lambda>i. (getBufferTargetFromBit i, 0))) s)))"
    by (rule visit_phase_ranked_upto [where k = 4 and g = "\<lambda>i. min i 10"])
       (use bufferBody_calls [where key = "\<lambda>i. (getBufferTargetFromBit i, 0)"] in
         \<open>simp_all add: other_rank\<close>)
  have p6: "\<And>s m n. ranked_upto (5, 0) (snd s) \<Longrightarrow>
      ranked_upto (6, 0) (snd (fst (visit_phase m n (textureBody h) s)))"
    by (rule visit_phase_ranked_upto [where k = 5 and g = "\<lambda>i. i"]) (use textureBody_calls in simp_all)
  have p7: "\<And>s m n. ranked_upto (6, 0) (snd s) \<Longrightarrow>
      ranked_upto (7, 0) (snd (fst (visit_phase m n (imageBody h) s)))"
    by (rule visit_phase_ranked_upto [where k = 6 and g = "\<lambda>i. i"]) (use imageBody_calls in simp_all)
  show ?thesis
    unfolding visit_all_def
    by (intro visit_then_ranked_upto [where k = 1] visit_then_ranked_upto [where k = 2]
          visit_then_ranked_upto [where k = 3] visit_then_ranked_upto [where k = 4]
          visit_then_ranked_upto [where k = 5] visit_then_ranked_upto [where k = 6]
          p1 p2 p3 p4 p5 p6 p7 p0) simp_all
qed

section \<open>The last position of the other mask in the visits\<close>

lemma same_effect_sim: "same_effect r r' = (sim (fst r) (fst r') \<and> snd r = snd r')"
  by (simp add: same_effect_def sim_def)

lemma bufferBody_sim: "sim s s' \<Longrightarrow> sim (bufferBody h k i s) (bufferBody h k i s')"
  by (auto simp: sim_def bufferBody_def split: prod.splits)

lemma textureBody_sim: "sim s s' \<Longrightarrow> sim (textureBody h i s) (textureBody h i s')"
  by (cases s; cases s') (auto simp: sim_def textureBody_def split: option.splits)

lemma imageBody_sim: "sim s s' \<Longrightarrow> sim (imageBody h i s) (imageBody h i s')"
  by (cases s; cases s') (auto simp: sim_def imageBody_def split: option.splits)

lemma probe_sim: "sim s s' \<Longrightarrow> sim (probe s) (probe s')"
  by (simp add: sim_def probe_def)

lemma probe_sim_left: "sim s s' \<Longrightarrow> sim (probe s) s'"
  by (simp add: sim_def probe_def driver_calls_def)

lemma probe_sim_right: "sim s s' \<Longrightarrow> sim s (probe s')"
  by (simp add: sim_def probe_def driver_calls_def)

lemma visit_bits_sim:
  assumes body: "\<And>i s s'. sim s s' \<Longrightarrow> sim (body i s) (body i s')"
  shows "(\<forall>i\<in>set is. bitset_test m i = bitset_test m' i) \<Longrightarrow> sim s s'
         \<Longrightarrow> same_effect (visit_bits m body is s) (visit_bits m' body is s')"
proof (induction "is" arbitrary: s s')
  case Nil
  then show ?case by (simp add: same_effect_sim)
next
  case (Cons i "is")
  show ?case
  proof (cases "bitset_test m' i")
    case (Inl x)
    then show ?thesis using Cons.prems by (simp add: same_effect_sim)
  next
    case (Inr b)
    have "sim (if b then body i s else s) (if b then body i s' else s')"
      using Cons.prems(2) body by simp
    then show ?thesis using Inr Cons.prems(1) Cons.IH by simp
  qed
qed

lemma visit_bits_no_bits:
  "(\<forall>i\<in>set is. bitset_test m i = Inr False) \<Longrightarrow> visit_bits m body is s = (s, None)"
  by (induction "is" arbitrary: s) auto

lemma visit_phase_sim:
  assumes body: "\<And>i s s'. sim s s' \<Longrightarrow> sim (body i s) (body i s')" and "sim s s'"
  shows "same_effect (visit_phase m n body s) (visit_phase m n body s')"
proof -
  have "same_effect (visit_bits m body [0..<n] s) (visit_bits m body [0..<n] s')"
    using assms by (intro visit_bits_sim) auto
  then show ?thesis using assms(2)
    by (auto simp: visit_phase_def same_effect_sim probe_sim split: prod.splits option.splits)
qed

lemma visit_then_sim:
  assumes "same_effect r r'" and "\<And>s s'. sim s s' \<Longrightarrow> same_effect (f s) (f' s')"
  shows "same_effect (visit_then r f) (visit_then r' f')"
  using assms
  by (cases r; cases r') (auto simp: visit_then_def same_effect_sim split: option.splits)

lemma bitset_any_False: "\<not> bitset_any m \<Longrightarrow> i < length m \<Longrightarrow> m ! i = False"
  by (auto simp: bitset_any_def in_set_conv_nth)

lemma other_phase_sim:
  assumes body: "\<And>i s s'. sim s s' \<Longrightarrow> sim (body i s) (body i s')" and "sim s s'"
  shows "same_effect (visit_phase m (length m - 1) body s) (visit_phase (m[length m - 1 := v]) (length m - 1) body s')"
proof -
  let ?m' = "m[length m - 1 := v]"
  let ?is = "[0..<length m - 1]"
  have eq: "\<forall>i\<in>set ?is. bitset_test m i = bitset_test ?m' i"
    by (auto simp: bitset_test_def)
  have fb: "same_effect (visit_bits m body ?is s) (visit_bits ?m' body ?is s')"
    using body eq assms(2) by (rule visit_bits_sim)
  have no: "\<not> bitset_any m \<Longrightarrow> visit_bits ?m' body ?is s' = (s', None)"
    by (rule visit_bits_no_bits) (auto simp: bitset_test_def bitset_any_False)
  have no': "\<not> bitset_any ?m' \<Longrightarrow> visit_bits m body ?is s = (s, None)"
  proof (rule visit_bits_no_bits)
    assume a: "\<not> bitset_any ?m'"
    show "\<forall>i\<in>set ?is. bitset_test m i = Inr False"
    proof
      fix i assume "i \<in> set ?is"
      then have i: "i < length m - 1" by simp
      then have "?m' ! i = False" using a by (intro bitset_any_False) auto
      then show "bitset_test m i = Inr False" using i by (simp add: bitset_test_def)
    qed
  qed
  show ?thesis
  proof (cases "bitset_any m"; cases "bitset_any ?m'")
    assume "bitset_any m" "bitset_any ?m'"
    then show ?thesis using fb
      by (auto simp: visit_phase_def same_effect_sim probe_sim split: prod.splits option.splits)
  next
    assume a: "bitset_any m" "\<not> bitset_any ?m'"
    then show ?thesis using no'[OF a(2)] assms(2)
      by (auto simp: visit_phase_def same_effect_sim probe_sim_left)
  next
    assume a: "\<not> bitset_any m" "bitset_any ?m'"
    then show ?thesis using no[OF a(1)] assms(2)
      by (auto simp: visit_phase_def same_effect_sim probe_sim_right)
  next
    assume "\<not> bitset_any m" "\<not> bitset_any ?m'"
    then show ?thesis using assms(2) by (auto simp: visit_phase_def same_effect_sim)
  qed
qed

lemma visit_all_last_other_bit:
  "same_effect (visit_all L h d st)
     (visit_all L h (d\<lparr>other := (other d)[length (other d) - 1 := v]\<rparr>) st)"
proof -
  have B: "\<And>m n k s s'. sim s s' \<Longrightarrow>
      same_effect (visit_phase m n (bufferBody h k) s) (visit_phase m n (bufferBody h k) s')"
    by (rule visit_phase_sim [OF bufferBody_sim])
  have T: "\<And>m n s s'. sim s s' \<Longrightarrow>
      same_effect (visit_phase m n (textureBody h) s) (visit_phase m n (textureBody h) s')"
    by (rule visit_phase_sim [OF textureBody_sim])
  have I: "\<And>m n s s'. sim s s' \<Longrightarrow>
      same_effect (visit_phase m n (imageBody h) s) (visit_phase m n (imageBody h) s')"
    by (rule visit_phase_sim [OF imageBody_sim])
  have O: "\<And>k s s'. sim s s' \<Longrightarrow>
      same_effect (visit_phase (other d) (length (other d) - 1) (bufferBody h k) s)
        (visit_phase ((other d)[length (other d) - 1 := v]) (length (other d) - 1) (bufferBody h k) s')"
    by (rule other_phase_sim [OF bufferBody_sim])
  have S: "sim (st, [GET_GL_ERROR]) (st, [GET_GL_ERROR])"
    by (simp add: sim_def)
  show ?thesis
    unfolding visit_all_def
    by (simp del: One_nat_def) (intro visit_then_sim B T I O S)
qed

section \<open>The scans as sequences of writes\<close>

lemma length_mask_write_slot [simp]:
  "length (mask_of c (write_slot s v d)) = length (mask_of c d)"
  by (cases c; cases "fst s") (simp_all add: mask_of_def write_slot_def)

lemma bit_at_write_slot:
  "bit_at (write_slot s v d) s' =
     (if s' = s \<and> snd s < length (mask_of (fst s) d) then v else bit_at d s')"
  by (cases s; cases s'; cases "fst s"; cases "fst s'")
     (auto simp: bit_at_def mask_of_def write_slot_def nth_list_update)

lemma diffBuffer_write:
  "diffBuffer e v (d, w) =
     (if snd (slot_of e) < length (mask_of (fst (slot_of e)) d)
      then Inr (write_slot (slot_of e) v d,
                w @ (if fst (slot_of e) = Other then snd (getBufferTargetBit (target e)) else []))
      else Inl Out_of_range)"
  by (simp add: diffBuffer_def slot_of_def buffer_slot_def key_of_def bitset_set_def mask_of_def write_slot_def
      split: prod.splits)

lemma scanBuffers_run:
  "map_sum id fst (scanBuffers h forced os es (d, w)) = run_writes (buffer_writes h forced os es) d"
proof (induction es arbitrary: d w)
  case Nil
  then show ?case by (simp add: buffer_writes_def)
next
  case (Cons e es)
  show ?case
    using Cons.IH
    by (simp add: diffBuffer_write buffer_writes_def buffer_value_def)
qed

lemma scanTextures_run:
  "map_sum id fst (scanTextures forced os es (d, w)) = run_writes (texture_writes forced os es) d"
proof (induction es arbitrary: d w)
  case Nil
  then show ?case by (simp add: texture_writes_def)
next
  case (Cons e es)
  have "\<And>m. d\<lparr>dtextures := m\<rparr> = d\<lparr>dtextures := m\<rparr>" by simp
  show ?case
    using Cons.IH
    by (simp add: texture_writes_def bitset_set_def mask_of_def write_slot_def)
qed

lemma scanImages_run:
  "map_sum id fst (scanImages L forced os es (d, w)) = run_writes (image_writes L forced os es) d"
proof (induction es arbitrary: d w)
  case Nil
  then show ?case by (simp add: image_writes_def)
next
  case (Cons e es)
  show ?case
    using Cons.IH
    by (simp add: image_writes_def bitset_set_def mask_of_def write_slot_def)
qed

lemma run_writes_append:
  "run_writes (a @ b) d = and_then (run_writes a d) (run_writes b)"
  by (induction a arbitrary: d) (simp_all add: and_then_def)

lemma map_sum_and_then:
  assumes "\<And>d w. map_sum id fst (g (d, w)) = g' d"
  shows "map_sum id fst (and_then r g) = and_then (map_sum id fst r) g'"
  using assms by (cases r) (auto simp: and_then_def)

lemma makeDiff_run:
  "map_sum id fst (makeDiff L h cur tgt forced) =
     run_writes (all_writes L h cur tgt forced) (StateDiff_init L)"
  unfolding makeDiff_def all_writes_def run_writes_append
  by (simp add: map_sum_and_then [where g' = "run_writes (buffer_writes h forced (buffers cur) (buffers tgt) @ _)"]
        map_sum_and_then scanBuffers_run scanTextures_run scanImages_run run_writes_append)

lemma run_writes_result:
  "run_writes ws d = Inr d' \<Longrightarrow>
     (\<forall>c. length (mask_of c d') = length (mask_of c d))
     \<and> (\<forall>s. bit_at d' s = (case map_of (rev ws) s of None \<Rightarrow> bit_at d s | Some v \<Rightarrow> v))"
proof (induction ws arbitrary: d)
  case Nil
  then show ?case by simp
next
  case (Cons sv ws)
  from Cons.prems have r: "snd (fst sv) < length (mask_of (fst (fst sv)) d)"
    and run: "run_writes ws (write_slot (fst sv) (snd sv) d) = Inr d'"
    by (auto split: if_splits)
  from Cons.IH [OF run] r show ?case
    by (auto simp: map_add_def bit_at_write_slot split: option.splits)
qed

lemma run_writes_returns:
  "(\<forall>sv\<in>set ws. snd (fst sv) < length (mask_of (fst (fst sv)) d)) \<Longrightarrow> \<exists>d'. run_writes ws d = Inr d'"
  by (induction ws arbitrary: d) auto

lemma run_writes_in_range:
  "run_writes ws d = Inr d' \<Longrightarrow> sv \<in> set ws \<Longrightarrow> snd (fst sv) < length (mask_of (fst (fst sv)) d)"
proof (induction ws arbitrary: d)
  case Nil
  then show ?case by simp
next
  case (Cons a ws)
  from Cons.prems(1) have r: "snd (fst a) < length (mask_of (fst (fst a)) d)"
    and run: "run_writes ws (write_slot (fst a) (snd a) d) = Inr d'"
    by (auto split: if_splits)
  show ?case
  proof (cases "sv = a")
    case True
    then show ?thesis using r by simp
  next
    case False
    then have "sv \<in> set ws" using Cons.prems(2) by simp
    from Cons.IH [OF run this] show ?thesis by simp
  qed
qed

lemma makeDiff_Inr_iff:
  "makeDiff L h cur tgt forced = Inr (d, w) \<Longrightarrow>
     run_writes (all_writes L h cur tgt forced) (StateDiff_init L) = Inr d"
  using makeDiff_run [of L h cur tgt forced] by simp

lemma makeDiff_returns:
  "run_writes (all_writes L h cur tgt forced) (StateDiff_init L) = Inr d \<Longrightarrow>
     \<exists>w. makeDiff L h cur tgt forced = Inr (d, w)"
  using makeDiff_run [of L h cur tgt forced]
  by (cases "makeDiff L h cur tgt forced") auto

section \<open>Slots of regular keys\<close>

lemma slot_key_dedicated:
  "t \<in> set dedicated_targets \<Longrightarrow> slot_key (buffer_slot (t, loc)) = (t, loc)"
  by (auto simp: dedicated_targets_def buffer_slot_def slot_key_def gl_buffer_targets)

lemma buffer_slot_enumerated:
  "t \<in> set enumerated_targets \<Longrightarrow> buffer_slot (t, loc) = (Other, fst (getBufferTargetBit t))"
  by (auto simp: enumerated_targets_def buffer_slot_def gl_buffer_targets)

lemma getBufferTargetFromBit_inverse:
  "t \<in> set enumerated_targets \<Longrightarrow> getBufferTargetFromBit (fst (getBufferTargetBit t)) = t"
  by (auto simp: enumerated_targets_def getBufferTargetBit_def getBufferTargetFromBit_def
      gl_buffer_targets)

lemma getBufferTargetBit_enumerated:
  "t \<in> set enumerated_targets \<Longrightarrow> fst (getBufferTargetBit t) \<le> 9"
  by (auto simp: enumerated_targets_def getBufferTargetBit_def gl_buffer_targets)

lemma slot_key_buffer_slot:
  assumes "regular_key k"
  shows "slot_key (buffer_slot k) = k"
proof (cases k)
  case (Pair t loc)
  show ?thesis
  proof (cases "t \<in> set dedicated_targets")
    case True
    then show ?thesis using Pair by (simp add: slot_key_dedicated)
  next
    case False
    then have "t \<in> set enumerated_targets" "loc = 0"
      using assms Pair by (auto simp: regular_key_def)
    then show ?thesis using Pair
      by (simp add: buffer_slot_enumerated getBufferTargetFromBit_inverse slot_key_def)
  qed
qed

lemma buffer_slot_inj:
  assumes "regular_key k" and "regular_key k'" and "buffer_slot k = buffer_slot k'"
  shows "k = k'"
proof -
  have "slot_key (buffer_slot k) = slot_key (buffer_slot k')" using assms(3) by simp
  then show ?thesis using assms(1,2) by (simp add: slot_key_buffer_slot)
qed

lemma buffer_slot_category:
  "fst (buffer_slot k) \<noteq> Textures \<and> fst (buffer_slot k) \<noteq> Images"
  by (simp add: buffer_slot_def)

lemma bit_at_init [simp]: "bit_at (StateDiff_init L) s = False"
  by (cases s; cases "fst s") (auto simp: bit_at_def mask_of_def StateDiff_init_def)

section \<open>The last write to a slot\<close>

lemma last_write_keyed:
  assumes "distinct (map fst es)" and "inj_on g (insert k (fst ` set es))"
  shows "map_of (rev (map (\<lambda>e. (g (fst e), val e)) es)) (g k) =
           map_option (\<lambda>b. val (k, b)) (map_of es k)"
  using assms
proof (induction es)
  case Nil
  then show ?case by simp
next
  case (Cons e es)
  have inj: "inj_on g (insert k (fst ` set es))"
    using Cons.prems(2) by (rule inj_on_subset) auto
  have IH: "map_of (rev (map (\<lambda>e. (g (fst e), val e)) es)) (g k) =
           map_option (\<lambda>b. val (k, b)) (map_of es k)"
    using Cons.IH Cons.prems(1) inj by simp
  show ?case
  proof (cases "fst e = k")
    case True
    then have "map_of es k = None" using Cons.prems(1) by (simp add: map_of_eq_None_iff)
    then show ?thesis using IH True by (cases e) (simp add: map_add_def)
  next
    case False
    then have "g (fst e) \<noteq> g k"
      using Cons.prems(2) by (auto simp: inj_on_def)
    then show ?thesis using IH False
      by (cases e) (auto simp: map_add_def split: option.splits)
  qed
qed

lemma last_write_absent:
  "(\<And>e. e \<in> set es \<Longrightarrow> g e \<noteq> s) \<Longrightarrow> map_of (rev (map (\<lambda>e. (g e, val e)) es)) s = None"
  by (induction es) (auto simp: map_add_def)

lemma buffer_writes_last:
  assumes "distinct (map fst es)"
    and "\<forall>e\<in>set es. key_of (snd e) = fst e \<and> regular_key (fst e)"
    and "regular_key k"
  shows "map_of (rev (buffer_writes h f os es)) (buffer_slot k) =
           map_option (buffer_value h f os) (map_of es k)"
proof -
  have w: "buffer_writes h f os es =
             map (\<lambda>e. (buffer_slot (fst e), buffer_value h f os (snd e))) es"
    using assms(2) by (simp add: buffer_writes_def slot_of_def)
  have "inj_on buffer_slot (insert k (fst ` set es))"
    using assms(2,3) by (intro inj_onI buffer_slot_inj) auto
  from last_write_keyed [OF assms(1) this, of "\<lambda>e. buffer_value h f os (snd e)"]
  show ?thesis by (simp add: w)
qed

lemma last_write_SomeD:
  assumes "map_of (rev (map (\<lambda>e. (g e, val e)) es)) s = Some v"
  shows "\<exists>e\<in>set es. g e = s \<and> v = val e"
proof -
  from map_of_SomeD [OF assms] have "(s, v) \<in> (\<lambda>e. (g e, val e)) ` set es" by simp
  then show ?thesis by blast
qed

lemma buffer_writes_last_SomeD:
  "map_of (rev (buffer_writes h f os es)) s = Some v \<Longrightarrow>
     \<exists>e\<in>set es. slot_of (snd e) = s \<and> v = buffer_value h f os (snd e)"
  unfolding buffer_writes_def by (rule last_write_SomeD)

lemma buffer_writes_last_other:
  assumes "fst s = Textures \<or> fst s = Images"
  shows "map_of (rev (buffer_writes h f os es)) s = None"
  unfolding buffer_writes_def
proof (rule last_write_absent)
  fix e assume "e \<in> set es"
  show "slot_of (snd e) \<noteq> s"
    using assms buffer_slot_category [of "key_of (snd e)"] by (auto simp: slot_of_def)
qed

lemma texture_writes_last:
  assumes "distinct (map fst es)"
  shows "map_of (rev (texture_writes f os es)) (Textures, u) =
       map_option (\<lambda>t. f \<or> getTexture os u \<noteq> t) (map_of es u)"
proof -
  have "inj_on (Pair Textures) (insert u (fst ` set es))" by (simp add: inj_on_def)
  from last_write_keyed [OF assms this, of "\<lambda>e. f \<or> getTexture os (fst e) \<noteq> snd e"]
  show ?thesis by (simp add: texture_writes_def)
qed

lemma texture_writes_last_other:
  "fst s \<noteq> Textures \<Longrightarrow> map_of (rev (texture_writes f os es)) s = None"
  unfolding texture_writes_def by (rule last_write_absent) auto

lemma texture_writes_last_SomeD:
  "map_of (rev (texture_writes f os es)) s = Some v \<Longrightarrow>
     \<exists>e\<in>set es. (Textures, fst e) = s \<and> v = (f \<or> getTexture os (fst e) \<noteq> snd e)"
  unfolding texture_writes_def by (rule last_write_SomeD)

lemma image_writes_last:
  assumes "distinct (map fst es)"
  shows "map_of (rev (image_writes L f os es)) (Images, u) =
       map_option (\<lambda>p. f \<or> getImage L os u \<noteq> p) (map_of es u)"
proof -
  have "inj_on (Pair Images) (insert u (fst ` set es))" by (simp add: inj_on_def)
  from last_write_keyed [OF assms this, of "\<lambda>e. f \<or> getImage L os (fst e) \<noteq> snd e"]
  show ?thesis by (simp add: image_writes_def)
qed

lemma image_writes_last_other:
  "fst s \<noteq> Images \<Longrightarrow> map_of (rev (image_writes L f os es)) s = None"
  unfolding image_writes_def by (rule last_write_absent) auto

lemma image_writes_last_SomeD:
  "map_of (rev (image_writes L f os es)) s = Some v \<Longrightarrow>
     \<exists>e\<in>set es. (Images, fst e) = s \<and> v = (f \<or> getImage L os (fst e) \<noteq> snd e)"
  unfolding image_writes_def by (rule last_write_SomeD)

lemma map_add_right_None: "n s = None \<Longrightarrow> (m ++ n) s = m s"
  by (simp add: map_add_def)

lemma map_add_left_None: "m s = None \<Longrightarrow> (m ++ n) s = n s"
  by (simp add: map_add_def split: option.splits)

lemma last_write_all:
  "map_of (rev (all_writes L h cur tgt f)) s =
     (if fst s = Textures then
        (map_of (rev (texture_writes f (textures tgt) (textures cur)))
           ++ map_of (rev (texture_writes f (textures cur) (textures tgt)))) s
      else if fst s = Images then
        (map_of (rev (image_writes L f (images tgt) (images cur)))
           ++ map_of (rev (image_writes L f (images cur) (images tgt)))) s
      else
        (map_of (rev (buffer_writes h f (buffers tgt) (buffers cur)))
           ++ map_of (rev (buffer_writes h f (buffers cur) (buffers tgt)))) s)"
proof -
  let ?b1 = "map_of (rev (buffer_writes h f (buffers tgt) (buffers cur)))"
  let ?b2 = "map_of (rev (buffer_writes h f (buffers cur) (buffers tgt)))"
  let ?t1 = "map_of (rev (texture_writes f (textures tgt) (textures cur)))"
  let ?t2 = "map_of (rev (texture_writes f (textures cur) (textures tgt)))"
  let ?i1 = "map_of (rev (image_writes L f (images tgt) (images cur)))"
  let ?i2 = "map_of (rev (image_writes L f (images cur) (images tgt)))"
  have all: "map_of (rev (all_writes L h cur tgt f)) s = (((((?b1 ++ ?b2) ++ ?t1) ++ ?t2) ++ ?i1) ++ ?i2) s"
    by (simp add: all_writes_def)
  show ?thesis
  proof (cases "fst s = Textures")
    case True
    have "?b1 s = None" "?b2 s = None" "?i1 s = None" "?i2 s = None"
      using True by (simp_all add: buffer_writes_last_other image_writes_last_other)
    then have "(((((?b1 ++ ?b2) ++ ?t1) ++ ?t2) ++ ?i1) ++ ?i2) s = (?t1 ++ ?t2) s"
      by (simp add: map_add_def split: option.splits)
    then show ?thesis using True all by simp
  next
    case False
    note nt = False
    show ?thesis
    proof (cases "fst s = Images")
      case True
      have "?b1 s = None" "?b2 s = None" "?t1 s = None" "?t2 s = None"
        using True by (simp_all add: buffer_writes_last_other texture_writes_last_other)
      then have "(((((?b1 ++ ?b2) ++ ?t1) ++ ?t2) ++ ?i1) ++ ?i2) s = (?i1 ++ ?i2) s"
        by (simp add: map_add_def split: option.splits)
      then show ?thesis using True nt all by simp
    next
      case False
      have "?i1 s = None" "?i2 s = None" "?t1 s = None" "?t2 s = None"
        using False nt by (simp_all add: image_writes_last_other texture_writes_last_other)
      then have "(((((?b1 ++ ?b2) ++ ?t1) ++ ?t2) ++ ?i1) ++ ?i2) s = (?b1 ++ ?b2) s"
        by (simp add: map_add_def split: option.splits)
      then show ?thesis using False nt all by simp
    qed
  qed
qed

lemma makeDiff_bit:
  assumes "makeDiff L h cur tgt f = Inr (d, w)"
  shows "bit_at d s = (case map_of (rev (all_writes L h cur tgt f)) s of None \<Rightarrow> False | Some v \<Rightarrow> v)"
proof -
  from run_writes_result [OF makeDiff_Inr_iff [OF assms]]
  have "bit_at d s = (case map_of (rev (all_writes L h cur tgt f)) s of
                        None \<Rightarrow> bit_at (StateDiff_init L) s | Some v \<Rightarrow> v)"
    by blast
  then show ?thesis by (simp split: option.splits)
qed

lemma makeDiff_length:
  assumes "makeDiff L h cur tgt f = Inr (d, w)"
  shows "length (mask_of c d) = length (mask_of c (StateDiff_init L))"
  using run_writes_result [OF makeDiff_Inr_iff [OF assms]] by blast

section \<open>Concrete evaluation\<close>

lemma example_init:
  "StateDiff_init example_limits =
     \<lparr>ssbos = [False, False, False, False, False, False, False, False],
      ubos = [False, False, False, False, False, False, False, False],
      acbos = [False, False, False, False, False, False, False, False],
      tfbos = [False, False, False, False],
      other = [False, False, False, False, False, False, False, False, False, False, False],
      dtextures = [False, False, False, False, False, False, False, False],
      dimages = [False, False, False, False, False, False, False, False]\<rparr>"
  by (simp add: StateDiff_init_def example_limits_def eval_nat_numeral)

lemmas eval_defs =
  makeDiff_def and_then_def buffers_only_def entry_def
  diffBuffer_def bitset_set_def getBufferTargetBit_def gl_buffer_targets example_init
  example_live_def changed_def BufferBinding_neq_def getBufferBinding_def unboundBuffer_def
  key_of_def

section \<open>The two directions of the scan\<close>

lemma scanCurrent_run:
  "map_sum id fst (scanCurrent L h cur tgt forced) =
     run_writes (current_writes L h cur tgt forced) (StateDiff_init L)"
  unfolding scanCurrent_def current_writes_def run_writes_append
  by (simp add: map_sum_and_then scanBuffers_run scanTextures_run scanImages_run)

lemma scanTarget_run:
  "map_sum id fst (scanTarget L h cur tgt forced) =
     run_writes (current_writes L h tgt cur forced) (StateDiff_init L)"
  unfolding scanTarget_def current_writes_def run_writes_append
  by (simp add: map_sum_and_then scanBuffers_run scanTextures_run scanImages_run)

lemma current_writes_in_range:
  assumes "within_limits L cur" and "sv \<in> set (current_writes L h cur tgt f)"
  shows "snd (fst sv) < length (mask_of (fst (fst sv)) (StateDiff_init L))"
proof -
  have t: "length (mask_of Textures (StateDiff_init L)) = textures_size L"
    and i: "length (mask_of Images (StateDiff_init L)) = images_size L"
    by (simp_all add: mask_of_def StateDiff_init_def)
  from assms(2) consider
      (b) "sv \<in> set (buffer_writes h f (buffers tgt) (buffers cur))"
    | (t) "sv \<in> set (texture_writes f (textures tgt) (textures cur))"
    | (i) "sv \<in> set (image_writes L f (images tgt) (images cur))"
    by (auto simp: current_writes_def)
  then show ?thesis
  proof cases
    case b
    then obtain e where "e \<in> set (buffers cur)" "fst sv = slot_of (snd e)"
      by (auto simp: buffer_writes_def)
    then show ?thesis using assms(1) by (simp add: within_limits_def)
  next
    case t
    then obtain e where "e \<in> set (textures cur)" "fst sv = (Textures, fst e)"
      by (auto simp: texture_writes_def)
    then show ?thesis using assms(1) \<open>length (mask_of Textures (StateDiff_init L)) = textures_size L\<close>
      by (simp add: within_limits_def)
  next
    case i
    then obtain e where "e \<in> set (images cur)" "fst sv = (Images, fst e)"
      by (auto simp: image_writes_def)
    then show ?thesis using assms(1) \<open>length (mask_of Images (StateDiff_init L)) = images_size L\<close>
      by (simp add: within_limits_def)
  qed
qed

lemma set_all_writes:
  "set (all_writes L h cur tgt f) =
     set (current_writes L h cur tgt f) \<union> set (current_writes L h tgt cur f)"
  by (auto simp: all_writes_def current_writes_def)

lemma scan_returns:
  assumes "within_limits L cur"
  shows "\<exists>d w. scanCurrent L h cur tgt f = Inr (d, w)"
    and "\<exists>d w. scanTarget L h tgt cur f = Inr (d, w)"
proof -
  have "\<exists>d. run_writes (current_writes L h cur tgt f) (StateDiff_init L) = Inr d"
    by (rule run_writes_returns) (use assms current_writes_in_range in blast)
  then show "\<exists>d w. scanCurrent L h cur tgt f = Inr (d, w)"
    using scanCurrent_run [of L h cur tgt f]
    by (cases "scanCurrent L h cur tgt f") auto
  then show "\<exists>d w. scanTarget L h tgt cur f = Inr (d, w)"
    by (simp add: scanTarget_def scanCurrent_def)
qed

lemma makeDiff_within_limits:
  assumes "within_limits L cur" and "within_limits L tgt"
  shows "\<exists>d w. makeDiff L h cur tgt f = Inr (d, w)"
proof -
  have "\<exists>d. run_writes (all_writes L h cur tgt f) (StateDiff_init L) = Inr d"
    by (rule run_writes_returns)
       (use assms current_writes_in_range in \<open>auto simp: set_all_writes\<close>)
  then show ?thesis using makeDiff_returns by blast
qed

lemma last_write_current:
  "map_of (rev (current_writes L h cur tgt f)) s =
     (if fst s = Textures then map_of (rev (texture_writes f (textures tgt) (textures cur))) s
      else if fst s = Images then map_of (rev (image_writes L f (images tgt) (images cur))) s
      else map_of (rev (buffer_writes h f (buffers tgt) (buffers cur))) s)"
proof -
  let ?b1 = "map_of (rev (buffer_writes h f (buffers tgt) (buffers cur)))"
  let ?t1 = "map_of (rev (texture_writes f (textures tgt) (textures cur)))"
  let ?i1 = "map_of (rev (image_writes L f (images tgt) (images cur)))"
  have all: "map_of (rev (current_writes L h cur tgt f)) s = ((?b1 ++ ?t1) ++ ?i1) s"
    by (simp add: current_writes_def)
  show ?thesis
  proof (cases "fst s = Textures")
    case True
    have "?b1 s = None" "?i1 s = None"
      using True by (simp_all add: buffer_writes_last_other image_writes_last_other)
    then have "((?b1 ++ ?t1) ++ ?i1) s = ?t1 s"
      by (simp add: map_add_def split: option.splits)
    then show ?thesis using True all by simp
  next
    case False
    note nt = False
    show ?thesis
    proof (cases "fst s = Images")
      case True
      have "?b1 s = None" "?t1 s = None"
        using True by (simp_all add: buffer_writes_last_other texture_writes_last_other)
      then have "((?b1 ++ ?t1) ++ ?i1) s = ?i1 s"
        by (simp add: map_add_def split: option.splits)
      then show ?thesis using True nt all by simp
    next
      case False
      have "?i1 s = None" "?t1 s = None"
        using False nt by (simp_all add: image_writes_last_other texture_writes_last_other)
      then have "((?b1 ++ ?t1) ++ ?i1) s = ?b1 s"
        by (simp add: map_add_def split: option.splits)
      then show ?thesis using False nt all by simp
    qed
  qed
qed

lemma scanCurrent_bit:
  assumes "scanCurrent L h cur tgt f = Inr (d, w)"
  shows "bit_at d s = (case map_of (rev (current_writes L h cur tgt f)) s of None \<Rightarrow> False | Some v \<Rightarrow> v)"
    and "length (mask_of c d) = length (mask_of c (StateDiff_init L))"
proof -
  have run: "run_writes (current_writes L h cur tgt f) (StateDiff_init L) = Inr d"
    using scanCurrent_run [of L h cur tgt f] assms by simp
  from run_writes_result [OF run]
  have "bit_at d s = (case map_of (rev (current_writes L h cur tgt f)) s of
                        None \<Rightarrow> bit_at (StateDiff_init L) s | Some v \<Rightarrow> v)"
    by blast
  then show "bit_at d s = (case map_of (rev (current_writes L h cur tgt f)) s of None \<Rightarrow> False | Some v \<Rightarrow> v)"
    by (simp split: option.splits)
  from run_writes_result [OF run]
  show "length (mask_of c d) = length (mask_of c (StateDiff_init L))" by blast
qed

lemma StateDiff_eqI:
  fixes d d' :: StateDiff_t
  assumes "\<And>c. mask_of c d = mask_of c d'"
  shows "d = d'"
proof -
  have "ssbos d = ssbos d'" "ubos d = ubos d'" "acbos d = acbos d'" "tfbos d = tfbos d'"
    "other d = other d'" "dtextures d = dtextures d'" "dimages d = dimages d'"
    using assms [of Storage] assms [of Uniform] assms [of Atomic] assms [of Feedback]
      assms [of Other] assms [of Textures] assms [of Images]
    by (simp_all add: mask_of_def)
  then show ?thesis by simp
qed

lemma mask_of_StateDiff_or:
  "mask_of c (StateDiff_or d d') = bitset_or (mask_of c d) (mask_of c d')"
  by (cases c) (simp_all add: mask_of_def StateDiff_or_def)

lemma StateDiff_or_eqI:
  fixes d :: StateDiff_t
  assumes len: "\<And>c. length (mask_of c d) = n c" "\<And>c. length (mask_of c d1) = n c"
      "\<And>c. length (mask_of c d2) = n c"
    and bits: "\<And>s. bit_at d s = (bit_at d1 s \<or> bit_at d2 s)"
  shows "d = StateDiff_or d1 d2"
proof (rule StateDiff_eqI)
  fix c
  show "mask_of c d = mask_of c (StateDiff_or d1 d2)"
  proof (rule nth_equalityI)
    show "length (mask_of c d) = length (mask_of c (StateDiff_or d1 d2))"
      by (simp add: mask_of_StateDiff_or bitset_or_def len)
  next
    fix p assume "p < length (mask_of c d)"
    then have p: "p < n c" by (simp add: len)
    from bits [of "(c, p)"] p
    show "mask_of c d ! p = mask_of c (StateDiff_or d1 d2) ! p"
      by (simp add: bit_at_def len mask_of_StateDiff_or bitset_or_def)
  qed
qed

lemma well_keyed_lookup:
  assumes "well_keyed st" and "e \<in> set (buffers st)"
  shows "map_of (buffers st) (fst e) = Some (snd e)" and "key_of (snd e) = fst e"
    and "regular_key (fst e)"
  using assms by (auto simp: well_keyed_def)

lemma changed_cong:
  "buffer a = buffer b \<Longrightarrow> offset a = offset b \<Longrightarrow> bsize a = bsize b \<Longrightarrow> changed h a = changed h b"
  by (cases "buffer b") (simp_all add: changed_def)

lemma buffer_value_both:
  assumes wk: "well_keyed cur" "well_keyed tgt" and ext: "same_extent cur tgt"
    and e: "e \<in> set (buffers cur)" and e': "e' \<in> set (buffers tgt)"
    and slot: "slot_of (snd e) = slot_of (snd e')"
    and v: "buffer_value h f (buffers tgt) (snd e)"
  shows "buffer_value h f (buffers cur) (snd e')"
proof -
  have k: "fst e = fst e'"
    using slot well_keyed_lookup [OF wk(1) e] well_keyed_lookup [OF wk(2) e']
    by (auto simp: slot_of_def intro: buffer_slot_inj)
  have g: "getBufferBinding (buffers tgt) (key_of (snd e)) = snd e'"
    using well_keyed_lookup [OF wk(1) e] well_keyed_lookup [OF wk(2) e'] k
    by (simp add: getBufferBinding_def)
  have g': "getBufferBinding (buffers cur) (key_of (snd e')) = snd e"
    using well_keyed_lookup [OF wk(1) e] well_keyed_lookup [OF wk(2) e'] k
    by (simp add: getBufferBinding_def)
  show ?thesis
  proof (cases "buffer (snd e) = buffer (snd e')")
    case False
    then show ?thesis by (simp add: buffer_value_def g' BufferBinding_neq_def)
  next
    case True
    then have "offset (snd e) = offset (snd e')" "bsize (snd e) = bsize (snd e')"
      using ext e e' k by (auto simp: same_extent_def)
    then have "changed h (snd e) = changed h (snd e')"
      using True by (intro changed_cong)
    then show ?thesis using v True by (simp add: buffer_value_def g g' BufferBinding_neq_def)
  qed
qed

lemma union_bit:
  assumes wk: "well_keyed cur" "well_keyed tgt" and ext: "same_extent cur tgt"
  shows "(case map_of (rev (all_writes L h cur tgt f)) s of None \<Rightarrow> False | Some v \<Rightarrow> v) =
         ((case map_of (rev (current_writes L h cur tgt f)) s of None \<Rightarrow> False | Some v \<Rightarrow> v)
          \<or> (case map_of (rev (current_writes L h tgt cur f)) s of None \<Rightarrow> False | Some v \<Rightarrow> v))"
proof (cases "fst s = Textures")
  case True
  then obtain u where s: "s = (Textures, u)" by (cases s) auto
  have d: "distinct (map fst (textures cur))" "distinct (map fst (textures tgt))"
    using wk by (simp_all add: well_keyed_def)
  show ?thesis
    by (cases "map_of (textures cur) u"; cases "map_of (textures tgt) u")
       (auto simp: s last_write_all last_write_current texture_writes_last d map_add_def
          getTexture_def)
next
  case False
  note nt = False
  show ?thesis
  proof (cases "fst s = Images")
    case True
    then obtain u where s: "s = (Images, u)" by (cases s) auto
    have d: "distinct (map fst (images cur))" "distinct (map fst (images tgt))"
      using wk by (simp_all add: well_keyed_def)
    show ?thesis
      by (cases "map_of (images cur) u"; cases "map_of (images tgt) u")
         (auto simp: s last_write_all last_write_current image_writes_last d map_add_def
            getImage_def)
  next
    case False
    let ?b1 = "map_of (rev (buffer_writes h f (buffers tgt) (buffers cur))) s"
    let ?b2 = "map_of (rev (buffer_writes h f (buffers cur) (buffers tgt))) s"
    have imp: "?b1 = Some True \<Longrightarrow> ?b2 = Some v \<Longrightarrow> v" for v
    proof -
      assume 1: "?b1 = Some True" and 2: "?b2 = Some v"
      from buffer_writes_last_SomeD [OF 1] obtain e where
        e: "e \<in> set (buffers cur)" "slot_of (snd e) = s" "buffer_value h f (buffers tgt) (snd e)"
        by auto
      from buffer_writes_last_SomeD [OF 2] obtain e' where
        e': "e' \<in> set (buffers tgt)" "slot_of (snd e') = s" "v = buffer_value h f (buffers cur) (snd e')"
        by auto
      from buffer_value_both [OF wk ext e(1) e'(1) _ e(3)] e(2) e'(2) e'(3)
      show v by simp
    qed
    have l: "(case map_of (rev (all_writes L h cur tgt f)) s of None \<Rightarrow> False | Some v \<Rightarrow> v) =
             (case ?b2 of None \<Rightarrow> (case ?b1 of None \<Rightarrow> False | Some v \<Rightarrow> v) | Some v \<Rightarrow> v)"
      using nt False by (simp add: last_write_all map_add_def split: option.splits)
    have r1: "map_of (rev (current_writes L h cur tgt f)) s = ?b1"
      and r2: "map_of (rev (current_writes L h tgt cur f)) s = ?b2"
      using nt False by (simp_all add: last_write_current)
    show ?thesis
    proof (cases ?b2)
      case None
      then show ?thesis unfolding l r1 r2 by simp
    next
      case (Some v2)
      note b2 = Some
      show ?thesis
      proof (cases ?b1)
        case None
        then show ?thesis unfolding l r1 r2 using b2 by simp
      next
        case (Some v1)
        then have "v1 \<Longrightarrow> v2" using imp [OF _ b2] by simp
        then show ?thesis unfolding l r1 r2 using b2 Some by auto
      qed
    qed
  qed
qed

text \<open>
  C1 (as amended). For well-keyed snapshots within the limits that cache the same extent
  wherever they bind the same handle at the same key, \<open>makeDiff\<close> returns, both one-sided
  scans return, and the mask of \<open>makeDiff\<close> is the bitwise union of the mask that the scan
  over the current snapshot computes and the mask that the scan over the target computes,
  for either value of the forced flag.
\<close>

theorem makeDiff_union:
  assumes "well_keyed cur" and "well_keyed tgt" and "same_extent cur tgt"
    and "within_limits L cur" and "within_limits L tgt"
  shows "\<exists>d w d1 w1 d2 w2.
           makeDiff L h cur tgt forced = Inr (d, w)
           \<and> scanCurrent L h cur tgt forced = Inr (d1, w1)
           \<and> scanTarget L h cur tgt forced = Inr (d2, w2)
           \<and> d = StateDiff_or d1 d2"
proof -
  obtain d w where d: "makeDiff L h cur tgt forced = Inr (d, w)"
    using makeDiff_within_limits [OF assms(4,5)] by blast
  obtain d1 w1 where d1: "scanCurrent L h cur tgt forced = Inr (d1, w1)"
    using scan_returns(1) [OF assms(4)] by blast
  obtain d2 w2 where d2: "scanTarget L h cur tgt forced = Inr (d2, w2)"
    using scan_returns(2) [OF assms(5)] by blast
  have d2': "scanCurrent L h tgt cur forced = Inr (d2, w2)"
    using d2 by (simp add: scanTarget_def scanCurrent_def)
  have "d = StateDiff_or d1 d2"
  proof (rule StateDiff_or_eqI [where n = "\<lambda>c. length (mask_of c (StateDiff_init L))"])
    fix s
    show "bit_at d s = (bit_at d1 s \<or> bit_at d2 s)"
      unfolding makeDiff_bit [OF d] scanCurrent_bit(1) [OF d1] scanCurrent_bit(1) [OF d2']
      by (rule union_bit [OF assms(1-3)])
  qed (simp_all add: makeDiff_length [OF d] scanCurrent_bit(2) [OF d1] scanCurrent_bit(2) [OF d2'])
  then show ?thesis using d d1 d2 by blast
qed

section \<open>The bit of a key\<close>

lemma buffer_slot_not_texture [simp]:
  "buffer_slot k \<noteq> (Textures, u)" "buffer_slot k \<noteq> (Images, u)"
  using buffer_slot_category [of k] by auto

lemma makeDiff_buffer_bit_target:
  assumes d: "makeDiff L h cur tgt f = Inr (d, w)" and wk: "well_keyed tgt"
    and k: "map_of (buffers tgt) k = Some b"
  shows "bit_at d (buffer_slot k) = buffer_value h f (buffers cur) b"
proof -
  have e: "(k, b) \<in> set (buffers tgt)" using k by (rule map_of_SomeD)
  have r: "regular_key k" using well_keyed_lookup(3) [OF wk e] by simp
  have "map_of (rev (buffer_writes h f (buffers cur) (buffers tgt))) (buffer_slot k) =
          Some (buffer_value h f (buffers cur) b)"
    using buffer_writes_last [of "buffers tgt" k h f "buffers cur"] wk r k
    by (simp add: well_keyed_def)
  then show ?thesis
    using buffer_slot_category [of k]
    by (simp add: makeDiff_bit [OF d] last_write_all map_add_def)
qed

lemma makeDiff_buffer_bit_current:
  assumes d: "makeDiff L h cur tgt f = Inr (d, w)" and wk: "well_keyed cur" "well_keyed tgt"
    and k: "map_of (buffers cur) k = Some b" "map_of (buffers tgt) k = None"
  shows "bit_at d (buffer_slot k) = buffer_value h f (buffers tgt) b"
proof -
  have e: "(k, b) \<in> set (buffers cur)" using k(1) by (rule map_of_SomeD)
  have r: "regular_key k" using well_keyed_lookup(3) [OF wk(1) e] by simp
  have "map_of (rev (buffer_writes h f (buffers cur) (buffers tgt))) (buffer_slot k) = None"
    using buffer_writes_last [of "buffers tgt" k h f "buffers cur"] wk r k
    by (simp add: well_keyed_def)
  moreover have "map_of (rev (buffer_writes h f (buffers tgt) (buffers cur))) (buffer_slot k) =
          Some (buffer_value h f (buffers tgt) b)"
    using buffer_writes_last [of "buffers cur" k h f "buffers tgt"] wk r k
    by (simp add: well_keyed_def)
  ultimately show ?thesis
    using buffer_slot_category [of k]
    by (simp add: makeDiff_bit [OF d] last_write_all map_add_def)
qed

lemma makeDiff_texture_bit:
  assumes d: "makeDiff L h cur tgt f = Inr (d, w)" and wk: "well_keyed cur" "well_keyed tgt"
  shows "bit_at d (Textures, u) =
           (case map_of (textures tgt) u of
              Some t' \<Rightarrow> f \<or> getTexture (textures cur) u \<noteq> t'
            | None \<Rightarrow> (case map_of (textures cur) u of
                         Some t \<Rightarrow> f \<or> getTexture (textures tgt) u \<noteq> t | None \<Rightarrow> False))"
  using wk
  by (simp add: makeDiff_bit [OF d] last_write_all map_add_def texture_writes_last well_keyed_def
      split: option.splits)

lemma makeDiff_image_bit:
  assumes d: "makeDiff L h cur tgt f = Inr (d, w)" and wk: "well_keyed cur" "well_keyed tgt"
  shows "bit_at d (Images, u) =
           (case map_of (images tgt) u of
              Some p' \<Rightarrow> f \<or> getImage L (images cur) u \<noteq> p'
            | None \<Rightarrow> (case map_of (images cur) u of
                         Some p \<Rightarrow> f \<or> getImage L (images tgt) u \<noteq> p | None \<Rightarrow> False))"
  using wk
  by (simp add: makeDiff_bit [OF d] last_write_all map_add_def image_writes_last well_keyed_def
      split: option.splits)

lemma fst_all_writes: "fst ` set (all_writes L h cur tgt f) = slots cur \<union> slots tgt"
  by (simp add: all_writes_def slots_def buffer_writes_def texture_writes_def image_writes_def
      image_Un image_image Un_ac)

lemma makeDiff_bit_occupied:
  assumes d: "makeDiff L h cur tgt f = Inr (d, w)" and "bit_at d s"
  shows "s \<in> slots cur \<union> slots tgt"
proof -
  from assms obtain v where "map_of (rev (all_writes L h cur tgt f)) s = Some v"
    by (auto simp: makeDiff_bit [OF d] split: option.splits)
  then have "(s, v) \<in> set (all_writes L h cur tgt f)"
    using map_of_SomeD by fastforce
  then have "s \<in> fst ` set (all_writes L h cur tgt f)" by force
  then show ?thesis by (simp only: fst_all_writes)
qed

lemma all_writes_forced: "sv \<in> set (all_writes L h cur tgt True) \<Longrightarrow> snd sv"
  by (auto simp: all_writes_def buffer_writes_def texture_writes_def image_writes_def
      buffer_value_def)

lemma makeDiff_forced_bit:
  assumes d: "makeDiff L h cur tgt True = Inr (d, w)"
  shows "bit_at d s = (s \<in> slots cur \<union> slots tgt)"
proof
  assume "bit_at d s"
  then show "s \<in> slots cur \<union> slots tgt" using makeDiff_bit_occupied [OF d] by blast
next
  assume "s \<in> slots cur \<union> slots tgt"
  then have "s \<in> fst ` set (rev (all_writes L h cur tgt True))"
    by (simp add: fst_all_writes)
  then obtain v where v: "map_of (rev (all_writes L h cur tgt True)) s = Some v"
    by (cases "map_of (rev (all_writes L h cur tgt True)) s") (auto simp: map_of_eq_None_iff)
  then have "(s, v) \<in> set (all_writes L h cur tgt True)"
    using map_of_SomeD by fastforce
  then have v using all_writes_forced by fastforce
  then show "bit_at d s" using v by (simp add: makeDiff_bit [OF d])
qed

text \<open>
  C4 (as amended). If the current snapshot contains a buffer binding whose cached extent
  differs from the live one, and the target, well keyed, contains the identical binding
  under the same key, with both snapshots within the limits, then \<open>makeDiff\<close> returns a
  mask in which the bit of that binding is set, for either value of the forced flag.
\<close>

theorem stale_binding_reported:
  assumes "well_keyed tgt" and "within_limits L cur" and "within_limits L tgt"
    and "(k, b) \<in> set (buffers cur)" and "changed h b" and "(k, b) \<in> set (buffers tgt)"
  shows "\<exists>d w. makeDiff L h cur tgt forced = Inr (d, w) \<and> bit_at d (slot_of b)"
proof -
  obtain d w where d: "makeDiff L h cur tgt forced = Inr (d, w)"
    using makeDiff_within_limits [OF assms(2,3)] by blast
  have k: "map_of (buffers tgt) k = Some b" "key_of b = k"
    using well_keyed_lookup [OF assms(1,6)] by simp_all
  have "bit_at d (slot_of b)"
    using makeDiff_buffer_bit_target [OF d assms(1) k(1)] assms(5) k(2)
    by (simp add: slot_of_def buffer_value_def)
  then show ?thesis using d by blast
qed

lemma differing_buffer_bit:
  assumes d: "makeDiff L h cur tgt f = Inr (d, w)" and wk: "well_keyed cur" "well_keyed tgt"
    and df: "BufferBinding_neq (getBufferBinding (buffers cur) k) (getBufferBinding (buffers tgt) k)"
  shows "bit_at d (buffer_slot k)"
proof (cases "map_of (buffers tgt) k")
  case (Some b')
  then have "(k, b') \<in> set (buffers tgt)" by (rule map_of_SomeD)
  then have "key_of b' = k" using well_keyed_lookup(2) [OF wk(2)] by fastforce
  then show ?thesis
    using makeDiff_buffer_bit_target [OF d wk(2) Some] df Some
    by (simp add: buffer_value_def getBufferBinding_def)
next
  case None
  then have "buffer (getBufferBinding (buffers cur) k) \<noteq> None"
    using df by (simp add: getBufferBinding_def BufferBinding_neq_def unboundBuffer_def)
  then obtain b where b: "map_of (buffers cur) k = Some b"
    by (cases "map_of (buffers cur) k") (auto simp: getBufferBinding_def unboundBuffer_def)
  then have "(k, b) \<in> set (buffers cur)" by (rule map_of_SomeD)
  then have "key_of b = k" using well_keyed_lookup(2) [OF wk(1)] by fastforce
  then show ?thesis
    using makeDiff_buffer_bit_current [OF d wk b None] df b None
    by (auto simp: buffer_value_def getBufferBinding_def BufferBinding_neq_def)
qed

lemma unchanged_buffer_bit:
  assumes d: "makeDiff L h cur tgt False = Inr (d, w)" and wk: "well_keyed cur" "well_keyed tgt"
    and ns: "no_stale h cur" and eq: "map_of (buffers cur) k = map_of (buffers tgt) k"
    and e: "map_of (buffers tgt) k = Some b"
  shows "\<not> bit_at d (buffer_slot k)"
proof -
  have "(k, b) \<in> set (buffers cur)" using eq e by (simp add: map_of_SomeD)
  then have "\<not> changed h b" "key_of b = k"
    using ns well_keyed_lookup(2) [OF wk(1)] by (fastforce simp: no_stale_def)+
  then show ?thesis
    using makeDiff_buffer_bit_target [OF d wk(2) e] eq e
    by (simp add: buffer_value_def getBufferBinding_def BufferBinding_neq_def)
qed

text \<open>
  C6 (as amended). For well-keyed snapshots within the limits, a current snapshot without
  stale bindings and a target that binds a different resource at one key (an absent entry
  counting as unbound) and has the same entry at every other key, \<open>makeDiff\<close> without the
  forced flag returns a mask whose only set bit is the bit of that key, in the mask of its
  category.
\<close>

theorem single_key_change:
  assumes wk: "well_keyed cur" "well_keyed tgt"
    and lim: "within_limits L cur" "within_limits L tgt"
    and ns: "no_stale h cur" and se: "same_except cur tgt K" and df: "differs_at L cur tgt K"
  shows "\<exists>d w. makeDiff L h cur tgt False = Inr (d, w) \<and> (\<forall>s. bit_at d s = (s = key_slot K))"
proof -
  obtain d w where d: "makeDiff L h cur tgt False = Inr (d, w)"
    using makeDiff_within_limits [OF lim] by blast
  have set_bit: "bit_at d (key_slot K)"
  proof (cases K)
    case (Buffer_key k)
    then show ?thesis using differing_buffer_bit [OF d wk] df
      by (simp add: differs_at_def key_slot_def)
  next
    case (Texture_unit u)
    then show ?thesis using df
      by (auto simp: makeDiff_texture_bit [OF d wk] differs_at_def key_slot_def getTexture_def
          split: option.splits)
  next
    case (Image_unit u)
    then show ?thesis using df
      by (auto simp: makeDiff_image_bit [OF d wk] differs_at_def key_slot_def getImage_def
          split: option.splits)
  qed
  have only: "s = key_slot K" if s: "bit_at d s" for s
  proof -
    from makeDiff_bit_occupied [OF d s]
    have "(\<exists>e\<in>set (buffers cur) \<union> set (buffers tgt). s = slot_of (snd e))
          \<or> (\<exists>e\<in>set (textures cur) \<union> set (textures tgt). s = (Textures, fst e))
          \<or> (\<exists>e\<in>set (images cur) \<union> set (images tgt). s = (Images, fst e))"
      unfolding slots_def by blast
    then consider
        (b) e where "e \<in> set (buffers cur) \<union> set (buffers tgt)" "s = slot_of (snd e)"
      | (t) e where "e \<in> set (textures cur) \<union> set (textures tgt)" "s = (Textures, fst e)"
      | (i) e where "e \<in> set (images cur) \<union> set (images tgt)" "s = (Images, fst e)"
      by blast
    then show ?thesis
    proof cases
      case b
      have k: "key_of (snd e) = fst e"
        using b(1) well_keyed_lookup(2) [OF wk(1)] well_keyed_lookup(2) [OF wk(2)] by blast
      have pres: "map_of (buffers cur) (fst e) \<noteq> None \<or> map_of (buffers tgt) (fst e) \<noteq> None"
        using b(1) well_keyed_lookup(1) [OF wk(1)] well_keyed_lookup(1) [OF wk(2)] by fastforce
      have "Buffer_key (fst e) = K"
      proof (rule ccontr)
        assume "Buffer_key (fst e) \<noteq> K"
        then have eq: "map_of (buffers cur) (fst e) = map_of (buffers tgt) (fst e)"
          using se b(1) by (auto simp: same_except_def)
        then obtain b' where "map_of (buffers tgt) (fst e) = Some b'" using pres by auto
        from unchanged_buffer_bit [OF d wk ns eq this] s b(2) k
        show False by (simp add: slot_of_def)
      qed
      then show ?thesis using b(2) k by (auto simp: key_slot_def slot_of_def)
    next
      case t
      have pres: "map_of (textures cur) (fst e) \<noteq> None \<or> map_of (textures tgt) (fst e) \<noteq> None"
        using t(1) by (auto simp: map_of_eq_None_iff image_iff)
      have "Texture_unit (fst e) = K"
      proof (rule ccontr)
        assume "Texture_unit (fst e) \<noteq> K"
        then have eq: "map_of (textures cur) (fst e) = map_of (textures tgt) (fst e)"
          using se t(1) by (auto simp: same_except_def)
        then show False using s t(2) pres
          by (auto simp: makeDiff_texture_bit [OF d wk] getTexture_def split: option.splits)
      qed
      then show ?thesis using t(2) by (auto simp: key_slot_def)
    next
      case i
      have pres: "map_of (images cur) (fst e) \<noteq> None \<or> map_of (images tgt) (fst e) \<noteq> None"
        using i(1) by (auto simp: map_of_eq_None_iff image_iff)
      have "Image_unit (fst e) = K"
      proof (rule ccontr)
        assume "Image_unit (fst e) \<noteq> K"
        then have eq: "map_of (images cur) (fst e) = map_of (images tgt) (fst e)"
          using se i(1) by (auto simp: same_except_def)
        then show False using s i(2) pres
          by (auto simp: makeDiff_image_bit [OF d wk] getImage_def split: option.splits)
      qed
      then show ?thesis using i(2) by (auto simp: key_slot_def)
    qed
  qed
  show ?thesis using d set_bit only by blast
qed

lemmas eval_defs2 = eval_defs GL_PARAMETER_BUFFER_def GL_DRAW_INDIRECT_BUFFER_BINDING_def

text \<open>
  C1 as stated fails where two bindings are recorded at the same bit: \<^verbatim>\<open>set(pos, value)\<close>
  also clears. Both snapshots bind the two unrecognized targets, which share position 10 of
  the other mask; the binding of the first differs. The scan over the current snapshot
  leaves the bit set, the scan over the target then ends on the unchanged binding and
  clears it, and the mask of \<open>makeDiff\<close> is empty, unlike the union.
\<close>

theorem makeDiff_not_union:
  "makeDiff example_limits example_live
     (buffers_only [entry GL_DRAW_INDIRECT_BUFFER_BINDING 0 (Some 3) 64,
                    entry GL_PARAMETER_BUFFER 0 (Some 1) 64])
     (buffers_only [entry GL_PARAMETER_BUFFER 0 (Some 2) 64,
                    entry GL_DRAW_INDIRECT_BUFFER_BINDING 0 (Some 3) 64]) False
   = Inr (StateDiff_init example_limits,
          [Unknown_buffer_target GL_DRAW_INDIRECT_BUFFER_BINDING,
           Unknown_buffer_target GL_PARAMETER_BUFFER,
           Unknown_buffer_target GL_PARAMETER_BUFFER,
           Unknown_buffer_target GL_DRAW_INDIRECT_BUFFER_BINDING])
   \<and> scanCurrent example_limits example_live
     (buffers_only [entry GL_DRAW_INDIRECT_BUFFER_BINDING 0 (Some 3) 64,
                    entry GL_PARAMETER_BUFFER 0 (Some 1) 64])
     (buffers_only [entry GL_PARAMETER_BUFFER 0 (Some 2) 64,
                    entry GL_DRAW_INDIRECT_BUFFER_BINDING 0 (Some 3) 64]) False
   = Inr ((StateDiff_init example_limits)
            \<lparr>other := (other (StateDiff_init example_limits))[10 := True]\<rparr>,
          [Unknown_buffer_target GL_DRAW_INDIRECT_BUFFER_BINDING,
           Unknown_buffer_target GL_PARAMETER_BUFFER])
   \<and> scanTarget example_limits example_live
     (buffers_only [entry GL_DRAW_INDIRECT_BUFFER_BINDING 0 (Some 3) 64,
                    entry GL_PARAMETER_BUFFER 0 (Some 1) 64])
     (buffers_only [entry GL_PARAMETER_BUFFER 0 (Some 2) 64,
                    entry GL_DRAW_INDIRECT_BUFFER_BINDING 0 (Some 3) 64]) False
   = Inr (StateDiff_init example_limits,
          [Unknown_buffer_target GL_PARAMETER_BUFFER,
           Unknown_buffer_target GL_DRAW_INDIRECT_BUFFER_BINDING])
   \<and> StateDiff_init example_limits \<noteq>
       StateDiff_or
         ((StateDiff_init example_limits)
            \<lparr>other := (other (StateDiff_init example_limits))[10 := True]\<rparr>)
         (StateDiff_init example_limits)"
  by (simp add: eval_defs2 scanCurrent_def scanTarget_def StateDiff_or_def bitset_or_def)

lemma example_sizes:
  "textures_size example_limits = 8" "images_size example_limits = 8"
  "maxTextureBindings example_limits = 8" "maxImageBindings example_limits = 8"
  "other_size example_limits = 11"
  by (simp_all add: example_limits_def)

lemmas pred_defs =
  well_keyed_def regular_key_def dedicated_targets_def enumerated_targets_def within_limits_def
  slot_of_def buffer_slot_def mask_of_def same_extent_def no_stale_def

theorem makeDiff_union_witness:
  "well_keyed (buffers_only [entry GL_SHADER_STORAGE_BUFFER 2 (Some 1) 64])
   \<and> well_keyed (buffers_only [entry GL_SHADER_STORAGE_BUFFER 2 (Some 2) 64,
                               entry GL_ARRAY_BUFFER 0 (Some 3) 64])
   \<and> same_extent (buffers_only [entry GL_SHADER_STORAGE_BUFFER 2 (Some 1) 64])
        (buffers_only [entry GL_SHADER_STORAGE_BUFFER 2 (Some 2) 64,
                       entry GL_ARRAY_BUFFER 0 (Some 3) 64])
   \<and> within_limits example_limits (buffers_only [entry GL_SHADER_STORAGE_BUFFER 2 (Some 1) 64])
   \<and> within_limits example_limits
        (buffers_only [entry GL_SHADER_STORAGE_BUFFER 2 (Some 2) 64,
                       entry GL_ARRAY_BUFFER 0 (Some 3) 64])
   \<and> (\<exists>d w d1 w1 d2 w2.
         makeDiff example_limits example_live
           (buffers_only [entry GL_SHADER_STORAGE_BUFFER 2 (Some 1) 64])
           (buffers_only [entry GL_SHADER_STORAGE_BUFFER 2 (Some 2) 64,
                          entry GL_ARRAY_BUFFER 0 (Some 3) 64]) False = Inr (d, w)
         \<and> scanCurrent example_limits example_live
           (buffers_only [entry GL_SHADER_STORAGE_BUFFER 2 (Some 1) 64])
           (buffers_only [entry GL_SHADER_STORAGE_BUFFER 2 (Some 2) 64,
                          entry GL_ARRAY_BUFFER 0 (Some 3) 64]) False = Inr (d1, w1)
         \<and> scanTarget example_limits example_live
           (buffers_only [entry GL_SHADER_STORAGE_BUFFER 2 (Some 1) 64])
           (buffers_only [entry GL_SHADER_STORAGE_BUFFER 2 (Some 2) 64,
                          entry GL_ARRAY_BUFFER 0 (Some 3) 64]) False = Inr (d2, w2)
         \<and> d = StateDiff_or d1 d2)"
proof -
  let ?c = "buffers_only [entry GL_SHADER_STORAGE_BUFFER 2 (Some 1) 64]"
  let ?t = "buffers_only [entry GL_SHADER_STORAGE_BUFFER 2 (Some 2) 64,
                          entry GL_ARRAY_BUFFER 0 (Some 3) 64]"
  have 1: "well_keyed ?c" and 2: "well_keyed ?t"
    by (simp_all add: pred_defs buffers_only_def entry_def key_of_def gl_buffer_targets)
  have 3: "same_extent ?c ?t"
    by (simp add: pred_defs buffers_only_def entry_def)
  have 4: "within_limits example_limits ?c" and 5: "within_limits example_limits ?t"
    by (simp_all add: pred_defs buffers_only_def entry_def key_of_def gl_buffer_targets
        example_init getBufferTargetBit_def)
  show ?thesis
    using makeDiff_union [OF 1 2 3 4 5, of example_live False] 1 2 3 4 5 by simp
qed

text \<open>
  C4 as stated fails where another binding is recorded at the same bit: the target is the
  current snapshot, the binding of the first unrecognized target is stale, and the fresh
  binding of the second one, scanned after it, clears position 10 of the other mask.
\<close>

theorem stale_binding_hidden:
  "(GL_PARAMETER_BUFFER, 0) = fst (entry GL_PARAMETER_BUFFER 0 (Some 1) 32)
   \<and> changed example_live (snd (entry GL_PARAMETER_BUFFER 0 (Some 1) 32))
   \<and> slot_of (snd (entry GL_PARAMETER_BUFFER 0 (Some 1) 32)) = (Other, 10)
   \<and> makeDiff example_limits example_live
       (buffers_only [entry GL_PARAMETER_BUFFER 0 (Some 1) 32,
                      entry GL_DRAW_INDIRECT_BUFFER_BINDING 0 (Some 2) 64])
       (buffers_only [entry GL_PARAMETER_BUFFER 0 (Some 1) 32,
                      entry GL_DRAW_INDIRECT_BUFFER_BINDING 0 (Some 2) 64]) False
     = Inr (StateDiff_init example_limits,
            [Unknown_buffer_target GL_PARAMETER_BUFFER,
             Unknown_buffer_target GL_DRAW_INDIRECT_BUFFER_BINDING,
             Unknown_buffer_target GL_PARAMETER_BUFFER,
             Unknown_buffer_target GL_DRAW_INDIRECT_BUFFER_BINDING])
   \<and> \<not> bit_at (StateDiff_init example_limits) (Other, 10)"
  by (simp add: eval_defs2 slot_of_def buffer_slot_def bit_at_def mask_of_def)

theorem stale_binding_reported_witness:
  "well_keyed (buffers_only [entry GL_UNIFORM_BUFFER 1 (Some 1) 32])
   \<and> within_limits example_limits (buffers_only [entry GL_UNIFORM_BUFFER 1 (Some 1) 32])
   \<and> entry GL_UNIFORM_BUFFER 1 (Some 1) 32 \<in> set (buffers (buffers_only [entry GL_UNIFORM_BUFFER 1 (Some 1) 32]))
   \<and> changed example_live (snd (entry GL_UNIFORM_BUFFER 1 (Some 1) 32))
   \<and> (\<exists>d w. makeDiff example_limits example_live
               (buffers_only [entry GL_UNIFORM_BUFFER 1 (Some 1) 32])
               (buffers_only [entry GL_UNIFORM_BUFFER 1 (Some 1) 32]) False = Inr (d, w)
             \<and> bit_at d (Uniform, 1))"
proof -
  let ?c = "buffers_only [entry GL_UNIFORM_BUFFER 1 (Some 1) 32]"
  let ?b = "snd (entry GL_UNIFORM_BUFFER 1 (Some 1) 32)"
  have 1: "well_keyed ?c"
    by (simp add: pred_defs buffers_only_def entry_def key_of_def gl_buffer_targets)
  have 2: "within_limits example_limits ?c"
    by (simp add: pred_defs buffers_only_def entry_def key_of_def gl_buffer_targets example_init)
  have 3: "((GL_UNIFORM_BUFFER, 1), ?b) \<in> set (buffers ?c)"
    by (simp add: buffers_only_def entry_def)
  have 4: "changed example_live ?b"
    by (simp add: changed_def entry_def example_live_def)
  have 5: "slot_of ?b = (Uniform, 1)"
    by (simp add: slot_of_def buffer_slot_def key_of_def entry_def gl_buffer_targets)
  show ?thesis
    using stale_binding_reported [OF 1 2 2 3 4 3, of False] 1 2 3 4 5
    by (simp add: entry_def)
qed

text \<open>
  C6 as stated fails where another binding is recorded at the same bit: the snapshots
  differ in the binding of the first unrecognized target only, and the unchanged binding of
  the second one clears position 10 of the other mask, so that no bit at all is set.
\<close>

theorem single_key_change_hidden:
  "no_stale example_live
     (buffers_only [entry GL_PARAMETER_BUFFER 0 (Some 1) 64,
                    entry GL_DRAW_INDIRECT_BUFFER_BINDING 0 (Some 3) 64])
   \<and> same_except
       (buffers_only [entry GL_PARAMETER_BUFFER 0 (Some 1) 64,
                      entry GL_DRAW_INDIRECT_BUFFER_BINDING 0 (Some 3) 64])
       (buffers_only [entry GL_PARAMETER_BUFFER 0 (Some 2) 64,
                      entry GL_DRAW_INDIRECT_BUFFER_BINDING 0 (Some 3) 64])
       (Buffer_key (GL_PARAMETER_BUFFER, 0))
   \<and> differs_at example_limits
       (buffers_only [entry GL_PARAMETER_BUFFER 0 (Some 1) 64,
                      entry GL_DRAW_INDIRECT_BUFFER_BINDING 0 (Some 3) 64])
       (buffers_only [entry GL_PARAMETER_BUFFER 0 (Some 2) 64,
                      entry GL_DRAW_INDIRECT_BUFFER_BINDING 0 (Some 3) 64])
       (Buffer_key (GL_PARAMETER_BUFFER, 0))
   \<and> makeDiff example_limits example_live
       (buffers_only [entry GL_PARAMETER_BUFFER 0 (Some 1) 64,
                      entry GL_DRAW_INDIRECT_BUFFER_BINDING 0 (Some 3) 64])
       (buffers_only [entry GL_PARAMETER_BUFFER 0 (Some 2) 64,
                      entry GL_DRAW_INDIRECT_BUFFER_BINDING 0 (Some 3) 64]) False
     = Inr (StateDiff_init example_limits,
            [Unknown_buffer_target GL_PARAMETER_BUFFER,
             Unknown_buffer_target GL_DRAW_INDIRECT_BUFFER_BINDING,
             Unknown_buffer_target GL_PARAMETER_BUFFER,
             Unknown_buffer_target GL_DRAW_INDIRECT_BUFFER_BINDING])
   \<and> (\<forall>c. \<not> bitset_any (mask_of c (StateDiff_init example_limits)))"
proof -
  have "\<not> bitset_any (mask_of c (StateDiff_init example_limits))" for c
    by (cases c) (simp_all add: mask_of_def example_init bitset_any_def)
  then show ?thesis
    by (simp add: eval_defs2 no_stale_def same_except_def differs_at_def)
qed

theorem single_key_change_witness:
  "well_keyed \<lparr>buffers = [entry GL_SHADER_STORAGE_BUFFER 0 (Some 1) 64], textures = [(0, Some 5)], images = []\<rparr>
   \<and> well_keyed \<lparr>buffers = [entry GL_SHADER_STORAGE_BUFFER 0 (Some 1) 64], textures = [(0, Some 6)], images = []\<rparr>
   \<and> within_limits example_limits \<lparr>buffers = [entry GL_SHADER_STORAGE_BUFFER 0 (Some 1) 64], textures = [(0, Some 5)], images = []\<rparr>
   \<and> within_limits example_limits \<lparr>buffers = [entry GL_SHADER_STORAGE_BUFFER 0 (Some 1) 64], textures = [(0, Some 6)], images = []\<rparr>
   \<and> no_stale example_live \<lparr>buffers = [entry GL_SHADER_STORAGE_BUFFER 0 (Some 1) 64], textures = [(0, Some 5)], images = []\<rparr>
   \<and> same_except \<lparr>buffers = [entry GL_SHADER_STORAGE_BUFFER 0 (Some 1) 64], textures = [(0, Some 5)], images = []\<rparr>
        \<lparr>buffers = [entry GL_SHADER_STORAGE_BUFFER 0 (Some 1) 64], textures = [(0, Some 6)], images = []\<rparr> (Texture_unit 0)
   \<and> differs_at example_limits \<lparr>buffers = [entry GL_SHADER_STORAGE_BUFFER 0 (Some 1) 64], textures = [(0, Some 5)], images = []\<rparr>
        \<lparr>buffers = [entry GL_SHADER_STORAGE_BUFFER 0 (Some 1) 64], textures = [(0, Some 6)], images = []\<rparr> (Texture_unit 0)
   \<and> (\<exists>d w. makeDiff example_limits example_live
          \<lparr>buffers = [entry GL_SHADER_STORAGE_BUFFER 0 (Some 1) 64], textures = [(0, Some 5)], images = []\<rparr>
          \<lparr>buffers = [entry GL_SHADER_STORAGE_BUFFER 0 (Some 1) 64], textures = [(0, Some 6)], images = []\<rparr> False = Inr (d, w)
        \<and> (\<forall>s. bit_at d s = (s = (Textures, 0))))"
proof -
  let ?c = "\<lparr>buffers = [entry GL_SHADER_STORAGE_BUFFER 0 (Some 1) 64], textures = [(0, Some 5)], images = []\<rparr>"
  let ?t = "\<lparr>buffers = [entry GL_SHADER_STORAGE_BUFFER 0 (Some 1) 64], textures = [(0, Some 6)], images = []\<rparr>"
  have 1: "well_keyed ?c" and 2: "well_keyed ?t"
    by (simp_all add: pred_defs entry_def key_of_def gl_buffer_targets)
  have 3: "within_limits example_limits ?c" and 4: "within_limits example_limits ?t"
    by (simp_all add: pred_defs entry_def key_of_def gl_buffer_targets example_init example_sizes)
  have 5: "no_stale example_live ?c"
    by (simp add: no_stale_def changed_def entry_def example_live_def)
  have 6: "same_except ?c ?t (Texture_unit 0)"
    by (simp add: same_except_def)
  have 7: "differs_at example_limits ?c ?t (Texture_unit 0)"
    by (simp add: differs_at_def getTexture_def)
  show ?thesis
    using single_key_change [OF 1 2 3 4 5 6 7] 1 2 3 4 5 6 7
    by (simp add: key_slot_def)
qed

section \<open>What the visits do at a key\<close>

lemma calls_at_append [simp]: "calls_at K (a @ b) = calls_at K a @ calls_at K b"
  by (simp add: calls_at_def)

lemma calls_at_simps [simp]:
  "calls_at K [] = []"
  "calls_at K [GET_GL_ERROR] = []"
  "calls_at K [Buffer_bind t loc r] = (if K = Buffer_key (t, loc) then [Buffer_bind t loc r] else [])"
  "calls_at K [Buffer_unbind t loc] = (if K = Buffer_key (t, loc) then [Buffer_unbind t loc] else [])"
  "calls_at K [GlBindTextureUnit u g] = (if K = Texture_unit u then [GlBindTextureUnit u g] else [])"
  "calls_at K [GlBindImageTexture u g lv ml ly ac fm] =
     (if K = Image_unit u then [GlBindImageTexture u g lv ml ly ac fm] else [])"
  by (auto simp: calls_at_def call_key_def)

lemma applied_init: "applied h st {} (st, [GET_GL_ERROR])"
  by (simp add: applied_def)

lemma applied_probe: "applied h st0 V s \<Longrightarrow> applied h st0 V (probe s)"
  by (simp add: applied_def probe_def)

lemma appliedD:
  assumes "applied h st0 V s"
  shows "map_of (buffers (fst s)) k =
             (if Buffer_key k \<in> V then Option.bind (map_of (buffers st0) k) (settle h)
              else map_of (buffers st0) k)"
    and "map_of (textures (fst s)) u =
             (if Texture_unit u \<in> V then Option.bind (map_of (textures st0) u) settle_texture
              else map_of (textures st0) u)"
    and "map_of (images (fst s)) u =
             (if Image_unit u \<in> V then Option.bind (map_of (images st0) u) settle_image
              else map_of (images st0) u)"
    and "calls_at K (snd s) = (if K \<in> V then expected_calls h st0 K else [])"
  using assms unfolding applied_def by blast+

lemma bindOrRemoveBuffer_map:
  "map_of (fst (bindOrRemoveBuffer h bs t loc)) k =
     (if k = (t, loc) then Option.bind (map_of bs (t, loc)) (settle h) else map_of bs k)"
  by (auto simp: bindOrRemoveBuffer_def update_conv' delete_conv' settle_def split: option.splits)

lemma bindOrRemoveBuffer_calls:
  "snd (bindOrRemoveBuffer h bs t loc) =
     (case map_of bs (t, loc) of
        None \<Rightarrow> []
      | Some e \<Rightarrow> [case buffer e of Some r \<Rightarrow> Buffer_bind t loc r | None \<Rightarrow> Buffer_unbind t loc])"
  by (auto simp: bindOrRemoveBuffer_def split: option.splits)

lemma bufferBody_eq:
  "bufferBody h key i s =
     ((fst s)\<lparr>buffers := fst (bindOrRemoveBuffer h (buffers (fst s)) (fst (key i)) (snd (key i)))\<rparr>,
      snd s @ snd (bindOrRemoveBuffer h (buffers (fst s)) (fst (key i)) (snd (key i))))"
  by (simp add: bufferBody_def split: prod.splits)

lemma bufferBody_applied:
  assumes a: "applied h st0 V s" and k: "Buffer_key (key i) \<notin> V"
  shows "applied h st0 (insert (Buffer_key (key i)) V) (bufferBody h key i s)"
proof -
  obtain t loc where kk: "key i = (t, loc)" by (cases "key i")
  have l: "map_of (buffers (fst s)) (t, loc) = map_of (buffers st0) (t, loc)"
    using k kk by (simp add: appliedD [OF a])
  have c: "calls_at (Buffer_key (t, loc)) (snd s) = []"
    using k kk by (simp add: appliedD [OF a])
  have e: "calls_at K (snd (bindOrRemoveBuffer h (buffers (fst s)) t loc)) =
             (if K = Buffer_key (t, loc) then expected_calls h st0 K else [])" for K
    by (simp add: bindOrRemoveBuffer_calls l expected_calls_def split: option.splits)
  show ?thesis
    unfolding applied_def
  proof (intro conjI allI)
    fix k'
    show "map_of (buffers (fst (bufferBody h key i s))) k' =
       (if Buffer_key k' \<in> insert (Buffer_key (key i)) V
        then Option.bind (map_of (buffers st0) k') (settle h) else map_of (buffers st0) k')"
      using k kk by (simp add: bufferBody_eq bindOrRemoveBuffer_map appliedD [OF a])
  next
    fix u
    show "map_of (textures (fst (bufferBody h key i s))) u =
       (if Texture_unit u \<in> insert (Buffer_key (key i)) V
        then Option.bind (map_of (textures st0) u) settle_texture else map_of (textures st0) u)"
      by (simp add: bufferBody_eq appliedD [OF a])
  next
    fix u
    show "map_of (images (fst (bufferBody h key i s))) u =
       (if Image_unit u \<in> insert (Buffer_key (key i)) V
        then Option.bind (map_of (images st0) u) settle_image else map_of (images st0) u)"
      by (simp add: bufferBody_eq appliedD [OF a])
  next
    fix K
    show "calls_at K (snd (bufferBody h key i s)) =
       (if K \<in> insert (Buffer_key (key i)) V then expected_calls h st0 K else [])"
      using k kk by (simp add: bufferBody_eq e appliedD [OF a])
  qed
qed

lemma textureBody_applied:
  assumes a: "applied h st0 V s" and k: "Texture_unit i \<notin> V"
  shows "applied h st0 (insert (Texture_unit i) V) (textureBody h i s)"
proof -
  have l: "map_of (textures (fst s)) i = map_of (textures st0) i"
    using k by (simp add: appliedD [OF a])
  have c: "calls_at (Texture_unit i) (snd s) = []"
    using k by (simp add: appliedD [OF a])
  show ?thesis
    unfolding applied_def
  proof (intro conjI allI)
    fix k'
    show "map_of (buffers (fst (textureBody h i s))) k' =
       (if Buffer_key k' \<in> insert (Texture_unit i) V
        then Option.bind (map_of (buffers st0) k') (settle h) else map_of (buffers st0) k')"
      by (simp add: textureBody_def appliedD [OF a] split: option.splits)
  next
    fix u
    show "map_of (textures (fst (textureBody h i s))) u =
       (if Texture_unit u \<in> insert (Texture_unit i) V
        then Option.bind (map_of (textures st0) u) settle_texture else map_of (textures st0) u)"
      using k l by (auto simp: textureBody_def appliedD [OF a] delete_conv' settle_texture_def
          split: option.splits)
  next
    fix u
    show "map_of (images (fst (textureBody h i s))) u =
       (if Image_unit u \<in> insert (Texture_unit i) V
        then Option.bind (map_of (images st0) u) settle_image else map_of (images st0) u)"
      by (simp add: textureBody_def appliedD [OF a] split: option.splits)
  next
    fix K
    show "calls_at K (snd (textureBody h i s)) =
       (if K \<in> insert (Texture_unit i) V then expected_calls h st0 K else [])"
      using k c l by (auto simp: textureBody_def appliedD [OF a] expected_calls_def
          split: option.splits)
  qed
qed

lemma imageBody_applied:
  assumes a: "applied h st0 V s" and k: "Image_unit i \<notin> V"
  shows "applied h st0 (insert (Image_unit i) V) (imageBody h i s)"
proof -
  have l: "map_of (images (fst s)) i = map_of (images st0) i"
    using k by (simp add: appliedD [OF a])
  have c: "calls_at (Image_unit i) (snd s) = []"
    using k by (simp add: appliedD [OF a])
  show ?thesis
    unfolding applied_def
  proof (intro conjI allI)
    fix k'
    show "map_of (buffers (fst (imageBody h i s))) k' =
       (if Buffer_key k' \<in> insert (Image_unit i) V
        then Option.bind (map_of (buffers st0) k') (settle h) else map_of (buffers st0) k')"
      by (simp add: imageBody_def appliedD [OF a] split: option.splits)
  next
    fix u
    show "map_of (textures (fst (imageBody h i s))) u =
       (if Texture_unit u \<in> insert (Image_unit i) V
        then Option.bind (map_of (textures st0) u) settle_texture else map_of (textures st0) u)"
      by (simp add: imageBody_def appliedD [OF a] split: option.splits)
  next
    fix u
    show "map_of (images (fst (imageBody h i s))) u =
       (if Image_unit u \<in> insert (Image_unit i) V
        then Option.bind (map_of (images st0) u) settle_image else map_of (images st0) u)"
      using k l by (auto simp: imageBody_def appliedD [OF a] delete_conv' settle_image_def
          split: option.splits)
  next
    fix K
    show "calls_at K (snd (imageBody h i s)) =
       (if K \<in> insert (Image_unit i) V then expected_calls h st0 K else [])"
      using k c l by (auto simp: imageBody_def appliedD [OF a] expected_calls_def
          split: option.splits)
  qed
qed

lemma visit_bits_applied:
  assumes body: "\<And>i s V. applied h st0 V s \<Longrightarrow> key i \<notin> V \<Longrightarrow> applied h st0 (insert (key i) V) (body i s)"
  shows "distinct is \<Longrightarrow> inj_on key (set is) \<Longrightarrow> key ` set is \<inter> V = {}
         \<Longrightarrow> (\<forall>i\<in>set is. i < length m) \<Longrightarrow> applied h st0 V s
         \<Longrightarrow> \<exists>s'. visit_bits m body is s = (s', None)
                  \<and> applied h st0 (V \<union> key ` {i \<in> set is. m ! i}) s'"
proof (induction "is" arbitrary: s V)
  case Nil
  then show ?case by simp
next
  case (Cons i "is")
  have i: "i < length m" "key i \<notin> V" "key i \<notin> key ` set is"
    using Cons.prems by (auto simp: inj_on_def)
  let ?V = "if m ! i then insert (key i) V else V"
  let ?s = "if m ! i then body i s else s"
  have a: "applied h st0 ?V ?s"
    using Cons.prems(5) i(2) body by simp
  have "key ` set is \<inter> ?V = {}"
    using Cons.prems(3) i(3) by auto
  moreover have "distinct is" "inj_on key (set is)" "\<forall>i\<in>set is. i < length m"
    using Cons.prems by (auto simp: inj_on_def)
  ultimately obtain s' where s': "visit_bits m body is ?s = (s', None)"
    "applied h st0 (?V \<union> key ` {i \<in> set is. m ! i}) s'"
    using Cons.IH [of ?V ?s] a by blast
  have "?V \<union> key ` {i \<in> set is. m ! i} = V \<union> key ` {j \<in> set (i # is). m ! j}"
    by auto
  then show ?case using s' i(1) by (simp add: bitset_test_def)
qed

lemma visit_phase_applied:
  assumes body: "\<And>i s V. applied h st0 V s \<Longrightarrow> key i \<notin> V \<Longrightarrow> applied h st0 (insert (key i) V) (body i s)"
    and "inj_on key {..<n}" and "key ` {..<n} \<inter> V = {}" and "n \<le> length m"
    and "applied h st0 V s"
  shows "\<exists>s'. visit_phase m n body s = (s', None)
                  \<and> applied h st0 (V \<union> key ` {i. i < n \<and> m ! i}) s'"
proof (cases "bitset_any m")
  case True
  have 1: "distinct [0..<n]" by simp
  have 2: "inj_on key (set [0..<n])" using assms(2) by (simp add: atLeast0LessThan)
  have 3: "key ` set [0..<n] \<inter> V = {}" using assms(3) by (simp add: atLeast0LessThan)
  have 4: "\<forall>i\<in>set [0..<n]. i < length m" using assms(4) by auto
  have "\<exists>s'. visit_bits m body [0..<n] s = (s', None)
                  \<and> applied h st0 (V \<union> key ` {i \<in> set [0..<n]. m ! i}) s'"
    using body 1 2 3 4 assms(5) by (rule visit_bits_applied)
  then obtain s' where s': "visit_bits m body [0..<n] s = (s', None)"
    "applied h st0 (V \<union> key ` {i. i < n \<and> m ! i}) s'"
    by auto
  have "visit_phase m n body s = (probe s', None)" using True s'(1) by (simp add: visit_phase_def)
  then show ?thesis using applied_probe [OF s'(2)] by blast
next
  case False
  then have e: "{i. i < n \<and> m ! i} = {}"
    using assms(4) bitset_any_False [of m] by fastforce
  have "visit_phase m n body s = (s, None)" using False by (simp add: visit_phase_def)
  then show ?thesis using assms(5) unfolding e by simp
qed

lemma getBufferTargetFromBit_inj:
  assumes "i \<le> 10" and "j \<le> 10" and "getBufferTargetFromBit i = getBufferTargetFromBit j"
  shows "i = j"
proof -
  have "min i 10 = min j 10"
    using other_rank [of i] other_rank [of j] assms(3) by simp
  then show ?thesis using assms(1,2) by simp
qed

lemma getBufferTargetFromBit_not_dedicated:
  "getBufferTargetFromBit i \<notin> set dedicated_targets"
  by (simp add: getBufferTargetFromBit_def dedicated_targets_def gl_buffer_targets)

lemma visit_then_returns:
  assumes "r = (s, None)" and "f s = r'"
  shows "visit_then r f = r'"
  using assms by (simp add: visit_then_def)

lemma visit_all_applied:
  assumes tex: "maxTextureBindings L \<le> length (dtextures d)"
    and img: "maxImageBindings L \<le> length (dimages d)"
    and oth: "length (other d) \<le> 12"
  shows "\<exists>s'. visit_all L h d st = (s', None) \<and> applied h st (applied_keys L d) s'"
proof -
  let ?K1 = "\<lambda>i. Buffer_key (GL_SHADER_STORAGE_BUFFER, i)"
  let ?K2 = "\<lambda>i. Buffer_key (GL_UNIFORM_BUFFER, i)"
  let ?K3 = "\<lambda>i. Buffer_key (GL_ATOMIC_COUNTER_BUFFER, i)"
  let ?K4 = "\<lambda>i. Buffer_key (GL_TRANSFORM_FEEDBACK_BUFFER, i)"
  let ?K5 = "\<lambda>i. Buffer_key (getBufferTargetFromBit i, 0)"
  let ?V1 = "?K1 ` {i. i < length (ssbos d) \<and> ssbos d ! i}"
  let ?V2 = "?V1 \<union> ?K2 ` {i. i < length (ubos d) \<and> ubos d ! i}"
  let ?V3 = "?V2 \<union> ?K3 ` {i. i < length (acbos d) \<and> acbos d ! i}"
  let ?V4 = "?V3 \<union> ?K4 ` {i. i < length (tfbos d) \<and> tfbos d ! i}"
  let ?V5 = "?V4 \<union> ?K5 ` {i. i < length (other d) - 1 \<and> other d ! i}"
  let ?V6 = "?V5 \<union> Texture_unit ` {i. i < maxTextureBindings L \<and> dtextures d ! i}"
  let ?V7 = "?V6 \<union> Image_unit ` {i. i < maxImageBindings L \<and> dimages d ! i}"
  have B: "\<And>key i s V. applied h st V s \<Longrightarrow> Buffer_key (key i) \<notin> V \<Longrightarrow>
             applied h st (insert (Buffer_key (key i)) V) (bufferBody h key i s)"
    by (rule bufferBody_applied)
  have nd: "\<And>i. getBufferTargetFromBit i \<noteq> GL_SHADER_STORAGE_BUFFER"
    "\<And>i. getBufferTargetFromBit i \<noteq> GL_UNIFORM_BUFFER"
    "\<And>i. getBufferTargetFromBit i \<noteq> GL_ATOMIC_COUNTER_BUFFER"
    "\<And>i. getBufferTargetFromBit i \<noteq> GL_TRANSFORM_FEEDBACK_BUFFER"
    using getBufferTargetFromBit_not_dedicated by (auto simp: dedicated_targets_def)
  have inj: "\<And>t n. inj_on (\<lambda>i. Buffer_key (t, i)) {..<n}"
    by (simp add: inj_on_def)
  have dis2: "?K2 ` {..<length (ubos d)} \<inter> ({} \<union> ?V1) = {}"
    by (auto simp: gl_buffer_targets)
  have dis3: "?K3 ` {..<length (acbos d)} \<inter> ?V2 = {}"
    by (auto simp: gl_buffer_targets)
  have dis4: "?K4 ` {..<length (tfbos d)} \<inter> ?V3 = {}"
    by (auto simp: gl_buffer_targets)
  obtain s1 where s1: "visit_phase (ssbos d) (length (ssbos d))
        (bufferBody h (\<lambda>i. (GL_SHADER_STORAGE_BUFFER, i))) (st, [GET_GL_ERROR]) = (s1, None)"
      "applied h st ({} \<union> ?V1) s1"
    using visit_phase_applied [where key = ?K1 and body = "bufferBody h (\<lambda>i. (GL_SHADER_STORAGE_BUFFER, i))"
        and V = "{}" and n = "length (ssbos d)" and m = "ssbos d", OF B inj _ _ applied_init]
    by auto
  obtain s2 where s2: "visit_phase (ubos d) (length (ubos d))
        (bufferBody h (\<lambda>i. (GL_UNIFORM_BUFFER, i))) s1 = (s2, None)"
      "applied h st ?V2 s2"
    using visit_phase_applied [where key = ?K2 and body = "bufferBody h (\<lambda>i. (GL_UNIFORM_BUFFER, i))"
        and V = "{} \<union> ?V1" and n = "length (ubos d)" and m = "ubos d", OF B inj dis2 _ s1(2)]
    by auto
  obtain s3 where s3: "visit_phase (acbos d) (length (acbos d))
        (bufferBody h (\<lambda>i. (GL_ATOMIC_COUNTER_BUFFER, i))) s2 = (s3, None)"
      "applied h st ?V3 s3"
    using visit_phase_applied [where key = ?K3 and body = "bufferBody h (\<lambda>i. (GL_ATOMIC_COUNTER_BUFFER, i))"
        and V = ?V2 and n = "length (acbos d)" and m = "acbos d", OF B inj dis3 _ s2(2)]
    by auto
  obtain s4 where s4: "visit_phase (tfbos d) (length (tfbos d))
        (bufferBody h (\<lambda>i. (GL_TRANSFORM_FEEDBACK_BUFFER, i))) s3 = (s4, None)"
      "applied h st ?V4 s4"
    using visit_phase_applied [where key = ?K4 and body = "bufferBody h (\<lambda>i. (GL_TRANSFORM_FEEDBACK_BUFFER, i))"
        and V = ?V3 and n = "length (tfbos d)" and m = "tfbos d", OF B inj dis4 _ s3(2)]
    by auto
  have inj5: "inj_on ?K5 {..<length (other d) - 1}"
    using oth by (auto simp: inj_on_def intro: getBufferTargetFromBit_inj)
  have dis5: "?K5 ` {..<length (other d) - 1} \<inter> ?V4 = {}"
    using nd by auto
  obtain s5 where s5: "visit_phase (other d) (length (other d) - 1)
        (bufferBody h (\<lambda>i. (getBufferTargetFromBit i, 0))) s4 = (s5, None)"
      "applied h st ?V5 s5"
    using visit_phase_applied [where key = ?K5 and body = "bufferBody h (\<lambda>i. (getBufferTargetFromBit i, 0))"
        and V = ?V4 and n = "length (other d) - 1" and m = "other d", OF B inj5 dis5 _ s4(2)]
    by auto
  obtain s6 where s6: "visit_phase (dtextures d) (maxTextureBindings L) (textureBody h) s5 = (s6, None)"
      "applied h st ?V6 s6"
    using visit_phase_applied [where key = Texture_unit and body = "textureBody h"
        and V = ?V5 and n = "maxTextureBindings L" and m = "dtextures d",
        OF textureBody_applied _ _ tex s5(2)]
    by (auto simp: inj_on_def)
  obtain s7 where s7: "visit_phase (dimages d) (maxImageBindings L) (imageBody h) s6 = (s7, None)"
      "applied h st ?V7 s7"
    using visit_phase_applied [where key = Image_unit and body = "imageBody h"
        and V = ?V6 and n = "maxImageBindings L" and m = "dimages d",
        OF imageBody_applied _ _ img s6(2)]
    by (auto simp: inj_on_def)
  have "visit_all L h d st = (s7, None)"
    unfolding visit_all_def
    by (simp add: visit_then_def s1(1) s2(1) s3(1) s4(1) s5(1) s6(1) s7(1) del: One_nat_def)
  moreover have "?V7 = applied_keys L d" by (simp add: applied_keys_def)
  ultimately show ?thesis using s7(2) by auto
qed

section \<open>The shape of a snapshot is preserved by the visits\<close>














section \<open>The bits that the apply step visits\<close>

lemma mask_lengths_init:
  "length (ssbos (StateDiff_init L)) = ssbos_size L"
  "length (ubos (StateDiff_init L)) = ubos_size L"
  "length (acbos (StateDiff_init L)) = acbos_size L"
  "length (tfbos (StateDiff_init L)) = tfbos_size L"
  "length (other (StateDiff_init L)) = other_size L"
  "length (dtextures (StateDiff_init L)) = textures_size L"
  "length (dimages (StateDiff_init L)) = images_size L"
  by (simp_all add: StateDiff_init_def)

lemma makeDiff_lengths:
  assumes "makeDiff L h cur tgt f = Inr (d, w)"
  shows "length (other d) = other_size L" "length (dtextures d) = textures_size L"
    "length (dimages d) = images_size L"
  using makeDiff_length [OF assms, of Other] makeDiff_length [OF assms, of Textures]
    makeDiff_length [OF assms, of Images]
  by (simp_all add: mask_of_def mask_lengths_init)

lemma buffer_bit_applied:
  assumes r: "regular_key k" and b: "bit_at d (buffer_slot k)" and o: "length (other d) = 11"
  shows "Buffer_key k \<in> applied_keys L d"
proof (cases k)
  case (Pair t loc)
  show ?thesis
  proof (cases "t \<in> set dedicated_targets")
    case True
    then consider "t = GL_SHADER_STORAGE_BUFFER" | "t = GL_UNIFORM_BUFFER"
      | "t = GL_ATOMIC_COUNTER_BUFFER" | "t = GL_TRANSFORM_FEEDBACK_BUFFER"
      by (auto simp: dedicated_targets_def)
    then show ?thesis
    proof cases
      case 1
      then have "loc < length (ssbos d) \<and> ssbos d ! loc"
        using b Pair by (simp add: bit_at_def buffer_slot_def mask_of_def)
      then show ?thesis using 1 Pair by (auto simp: applied_keys_def)
    next
      case 2
      then have "loc < length (ubos d) \<and> ubos d ! loc"
        using b Pair by (simp add: bit_at_def buffer_slot_def mask_of_def gl_buffer_targets)
      then show ?thesis using 2 Pair by (auto simp: applied_keys_def)
    next
      case 3
      then have "loc < length (acbos d) \<and> acbos d ! loc"
        using b Pair by (simp add: bit_at_def buffer_slot_def mask_of_def gl_buffer_targets)
      then show ?thesis using 3 Pair by (auto simp: applied_keys_def)
    next
      case 4
      then have "loc < length (tfbos d) \<and> tfbos d ! loc"
        using b Pair by (simp add: bit_at_def buffer_slot_def mask_of_def gl_buffer_targets)
      then show ?thesis using 4 Pair by (auto simp: applied_keys_def)
    qed
  next
    case False
    then have e: "t \<in> set enumerated_targets" and l: "loc = 0"
      using r Pair by (auto simp: regular_key_def)
    let ?p = "fst (getBufferTargetBit t)"
    have "bit_at d (Other, ?p)"
      using b Pair by (simp add: buffer_slot_enumerated [OF e])
    then have "other d ! ?p" by (simp add: bit_at_def mask_of_def)
    moreover have "?p < length (other d) - 1"
      using getBufferTargetBit_enumerated [OF e] o by simp
    moreover have "getBufferTargetFromBit ?p = t"
      using e by (rule getBufferTargetFromBit_inverse)
    ultimately have "Buffer_key (t, 0) \<in>
        (\<lambda>i. Buffer_key (getBufferTargetFromBit i, 0)) ` {i. i < length (other d) - 1 \<and> other d ! i}"
      by force
    then show ?thesis using Pair l by (simp add: applied_keys_def)
  qed
qed

lemma texture_bit_applied:
  assumes "bit_at d (Textures, u)" and "u < maxTextureBindings L"
  shows "Texture_unit u \<in> applied_keys L d"
  using assms by (simp add: applied_keys_def bit_at_def mask_of_def)

lemma image_bit_applied:
  assumes "bit_at d (Images, u)" and "u < maxImageBindings L"
  shows "Image_unit u \<in> applied_keys L d"
  using assms by (simp add: applied_keys_def bit_at_def mask_of_def)


lemma replicate_update_same [simp]: "(replicate n x)[i := x] = replicate n x"
proof (cases "i < n")
  case True
  then show ?thesis by (simp add: list_update_same_conv)
next
  case False
  then have "length (replicate n x) \<le> i" by simp
  then show ?thesis by (rule list_update_beyond)
qed




lemma bitset_any_replicate [simp]: "\<not> bitset_any (replicate n False)"
  by (simp add: bitset_any_def)

lemma applied_lookup:
  assumes "applied h st0 V s" and "K \<in> V"
  shows "lookup (fst s) K = Option.bind (lookup st0 K) (settled h)"
proof (cases K)
  case (Buffer_key k)
  then show ?thesis using assms(2)
    by (cases "map_of (buffers st0) k")
       (simp_all add: lookup_def appliedD [OF assms(1)] settled_def)
next
  case (Texture_unit u)
  then show ?thesis using assms(2)
    by (cases "map_of (textures st0) u")
       (simp_all add: lookup_def appliedD [OF assms(1)] settled_def)
next
  case (Image_unit u)
  then show ?thesis using assms(2)
    by (cases "map_of (images st0) u")
       (simp_all add: lookup_def appliedD [OF assms(1)] settled_def)
qed

section \<open>Evaluation of the visits\<close>

lemmas apply_eval =
  visit_all_def visit_phase_def visit_then_def visit_bits.simps bitset_test_def bitset_any_def
  bufferBody_def bindOrRemoveBuffer_def textureBody_def imageBody_def probe_def
  example_sizes upt_rec [of _ "numeral _"] upt_rec [of _ "Suc _"]

section \<open>The loop counter of the apply step\<close>

text \<open>
  A loop of \<^verbatim>\<open>apply\<close> ends at its bound, or at the width of the mask when \<^verbatim>\<open>test\<close> throws
  there. When one of the two is at most 255 the loop is the visit of the positions in order;
  when both are above 255 the counter wraps and the loop does not end.
\<close>

lemma for_bits_from:
  assumes "k \<le> min n (length m)" and "min n (length m) \<le> 255"
  shows "for_bits m body n (of_nat k) s = Some (visit_bits m body [k..<n] s)"
  using assms
proof (induction "min n (length m) - k" arbitrary: k s)
  case 0
  then have k: "k = min n (length m)" "k \<le> 255" by simp_all
  then have u: "unat (of_nat k :: 8 word) = k" by (simp add: unat_of_nat)
  show ?case
  proof (cases "n \<le> length m")
    case True
    then have "k = n" using k by simp
    then show ?thesis using u by (subst for_bits.simps) simp
  next
    case False
    then have "k = length m" "k < n" using k by simp_all
    then show ?thesis using u
      by (subst for_bits.simps) (simp add: upt_conv_Cons bitset_test_def)
  qed
next
  case (Suc x)
  then have k: "k < n" "k < length m" "k < 255" by simp_all
  then have u: "unat (of_nat k :: 8 word) = k" by (simp add: unat_of_nat)
  have n: "(of_nat k :: 8 word) + 1 = of_nat (Suc k)" by simp
  have "for_bits m body n (of_nat (Suc k)) s' = Some (visit_bits m body [Suc k..<n] s')" for s'
    using Suc.hyps(2) Suc.prems by (intro Suc.hyps(1)) (auto simp: min_def)
  then show ?case using k u
    by (subst for_bits.simps) (simp add: upt_conv_Cons bitset_test_def n del: of_nat_Suc)
qed

lemma for_bits_reaches:
  "min n (length m) \<le> 255 \<Longrightarrow> for_bits m body n 0 s = Some (visit_bits m body [0..<n] s)"
  using for_bits_from [of 0 n m body s] by simp

lemma for_bits_returnsD:
  assumes "for_bits m body n i s = Some y"
  shows "\<not> (255 < n \<and> 255 < length m)"
proof (rule for_bits.raw_induct
    [where P = "\<lambda>m body n i s y. \<not> (255 < n \<and> 255 < length m)", OF _ assms])
  fix f :: "bool list \<Rightarrow> (nat \<Rightarrow> apply_state \<Rightarrow> apply_state) \<Rightarrow> nat \<Rightarrow> 8 word \<Rightarrow> apply_state
              \<Rightarrow> (apply_state \<times> exn option) option"
    and m body n i s y
  assume ih: "\<And>m body n i s y. f m body n i s = Some y \<Longrightarrow> \<not> (255 < n \<and> 255 < length m)"
    and st: "(if unat i < n
              then case bitset_test m (unat i) of
                     Inl x \<Rightarrow> Some (s, Some x)
                   | Inr b \<Rightarrow> f m body n (i + 1) (if b then body (unat i) s else s)
              else Some (s, None)) = Some y"
  show "\<not> (255 < n \<and> 255 < length m)"
  proof
    assume a: "255 < n \<and> 255 < length m"
    have "unat i < 256" using unsigned_less [of i] by simp
    then have "unat i < n" "unat i < length m" using a by simp_all
    then have "f m body n (i + 1) (if m ! unat i then body (unat i) s else s) = Some y"
      using st by (simp add: bitset_test_def)
    then show False using ih a by blast
  qed
qed

lemma for_bits_wraps:
  "255 < n \<Longrightarrow> 255 < length m \<Longrightarrow> for_bits m body n i s = None"
  using for_bits_returnsD [of m body n i s] by (cases "for_bits m body n i s") auto

lemma phase_visit:
  "phase m n body s =
     (if bitset_any m \<and> 255 < n \<and> 255 < length m then None
      else Some (visit_phase m n body s))"
proof (cases "bitset_any m")
  case False
  then show ?thesis by (simp add: phase_def visit_phase_def)
next
  case True
  show ?thesis
  proof (cases "255 < n \<and> 255 < length m")
    case True
    then show ?thesis using \<open>bitset_any m\<close> by (simp add: phase_def for_bits_wraps)
  next
    case False
    then have "min n (length m) \<le> 255" by auto
    then show ?thesis using False \<open>bitset_any m\<close>
      by (simp add: phase_def visit_phase_def for_bits_reaches split: prod.splits option.splits)
  qed
qed

lemma phase_bounded: "n \<le> 255 \<Longrightarrow> phase m n body s = Some (visit_phase m n body s)"
  by (simp add: phase_visit)

lemma then_phase_Some [simp]:
  "then_phase (Some r) (\<lambda>s. Some (g s)) = Some (visit_then r g)"
  by (cases r) (simp add: then_phase_def visit_then_def split: option.splits)

lemma apply_diff_bounded:
  "counter_range L d \<Longrightarrow> apply_diff L h d st = Some (visit_all L h d st)"
  by (simp add: counter_range_def apply_diff_def visit_all_def phase_bounded del: One_nat_def)

lemma phase_returns_visit:
  "phase m n body s = None \<or> phase m n body s = Some (visit_phase m n body s)"
  by (simp add: phase_visit)

lemma then_phase_returns_visit:
  assumes "r = None \<or> r = Some a" and "\<And>s. f s = None \<or> f s = Some (g s)"
  shows "then_phase r f = None \<or> then_phase r f = Some (visit_then a g)"
proof (cases r)
  case None
  then show ?thesis by (simp add: then_phase_def)
next
  case (Some x)
  then have "x = a" using assms(1) by simp
  then show ?thesis using Some assms(2) [of "fst a"]
    by (cases a; cases "snd a") (auto simp: then_phase_def visit_then_def)
qed

lemma apply_diff_returns_visit:
  "apply_diff L h d st = None \<or> apply_diff L h d st = Some (visit_all L h d st)"
  unfolding apply_diff_def visit_all_def
  by (intro then_phase_returns_visit phase_returns_visit)

lemma apply_diff_returnsD: "apply_diff L h d st = Some r \<Longrightarrow> r = visit_all L h d st"
  using apply_diff_returns_visit [of L h d st] by auto

lemma phase_rel:
  assumes body: "\<And>i s s'. sim s s' \<Longrightarrow> sim (body i s) (body i s')" and "sim s s'"
  shows "rel_option same_effect (phase m n body s) (phase m n body s')"
  using visit_phase_sim [OF assms, where m = m and n = n] by (simp add: phase_visit)

lemma other_phase_rel:
  assumes body: "\<And>i s s'. sim s s' \<Longrightarrow> sim (body i s) (body i s')" and "sim s s'"
    and "length m \<le> 256"
  shows "rel_option same_effect (phase m (length m - 1) body s)
           (phase (m[length m - 1 := v]) (length m - 1) body s')"
proof -
  have "length m - 1 \<le> 255" using assms(3) by simp
  then show ?thesis
    using other_phase_sim [OF assms(1,2), where m = m and v = v] by (simp add: phase_bounded del: One_nat_def)
qed

lemma then_phase_rel:
  assumes "rel_option same_effect r r'"
    and "\<And>s s'. sim s s' \<Longrightarrow> rel_option same_effect (f s) (f' s')"
  shows "rel_option same_effect (then_phase r f) (then_phase r' f')"
proof (cases r)
  case None
  then show ?thesis using assms(1) by (cases r') (simp_all add: then_phase_def)
next
  case (Some a)
  then obtain a' where r': "r' = Some a'" and e: "same_effect a a'"
    using assms(1) by (cases r') auto
  show ?thesis
  proof (cases "snd a")
    case None
    then have "snd a' = None" "sim (fst a) (fst a')" using e by (simp_all add: same_effect_sim)
    then show ?thesis using Some r' None assms(2) [of "fst a" "fst a'"]
      by (cases a; cases a') (simp add: then_phase_def)
  next
    case (Some x)
    then have "snd a' = Some x" using e by (simp add: same_effect_sim)
    then show ?thesis using Some \<open>r = Some a\<close> r' e
      by (cases a; cases a') (simp add: then_phase_def)
  qed
qed

lemma apply_diff_last_other_bit:
  assumes "length (other d) \<le> 256"
  shows "rel_option same_effect (apply_diff L h d st)
     (apply_diff L h (d\<lparr>other := (other d)[length (other d) - 1 := v]\<rparr>) st)"
proof -
  have B: "\<And>m n k s s'. sim s s' \<Longrightarrow>
      rel_option same_effect (phase m n (bufferBody h k) s) (phase m n (bufferBody h k) s')"
    by (rule phase_rel [OF bufferBody_sim])
  have T: "\<And>m n s s'. sim s s' \<Longrightarrow>
      rel_option same_effect (phase m n (textureBody h) s) (phase m n (textureBody h) s')"
    by (rule phase_rel [OF textureBody_sim])
  have I: "\<And>m n s s'. sim s s' \<Longrightarrow>
      rel_option same_effect (phase m n (imageBody h) s) (phase m n (imageBody h) s')"
    by (rule phase_rel [OF imageBody_sim])
  have O: "\<And>k s s'. sim s s' \<Longrightarrow>
      rel_option same_effect (phase (other d) (length (other d) - 1) (bufferBody h k) s)
        (phase ((other d)[length (other d) - 1 := v]) (length (other d) - 1) (bufferBody h k) s')"
    by (rule other_phase_rel [OF bufferBody_sim _ assms])
  have S: "sim (st, [GET_GL_ERROR]) (st, [GET_GL_ERROR])"
    by (simp add: sim_def)
  show ?thesis
    unfolding apply_diff_def
    by (simp del: One_nat_def) (intro then_phase_rel B T I O S)
qed


text \<open>
  The bound on the width matters: with an other mask of 257 positions of which the last
  alone is set, the loop over the positions 0 to 255 does not end, whereas without that bit
  the block is skipped.
\<close>

lemma wide_other_mask_wraps:
  "apply_diff example_limits h
     ((StateDiff_init example_limits)\<lparr>other := replicate 256 False @ [True]\<rparr>) st = None
   \<and> apply_diff example_limits h
       ((StateDiff_init example_limits)\<lparr>other := replicate 256 False @ [False]\<rparr>) st
     = Some ((st, [GET_GL_ERROR]), None)"
  by (simp add: apply_diff_def phase_visit visit_phase_def then_phase_def StateDiff_init_def
      bitset_any_def)

section \<open>The order of the driver calls of the apply step\<close>

text \<open>
  C7. When none of the bounds of the seven loops is above 255, the range of the loop
  counter, the apply step returns, and the bind and unbind calls it has issued are in the
  fixed order: the storage, uniform, atomic-counter, transform-feedback and other buffer
  calls, then the texture-unit calls, then the image-unit calls, and within each category by
  ascending index. This holds for every mask and snapshot, also when an exception ends the
  step.
\<close>

theorem apply_calls_in_order:
  assumes "counter_range L d"
  shows "\<exists>s out. apply_diff L h d st = Some (s, out) \<and> in_order (driver_calls (snd s))"
proof -
  have "in_order (driver_calls (snd (fst (visit_all L h d st))))"
    using visit_all_ranked_upto [of L h d st] by (simp add: ranked_upto_def)
  then show ?thesis
    using apply_diff_bounded [OF assms, of h st] by (cases "visit_all L h d st") simp
qed

theorem apply_calls_in_order_witness:
  "counter_range example_limits
     ((StateDiff_init example_limits)
        \<lparr>ssbos := (ssbos (StateDiff_init example_limits))[2 := True],
         dtextures := (dtextures (StateDiff_init example_limits))[1 := True]\<rparr>)
   \<and> apply_diff example_limits example_live
       ((StateDiff_init example_limits)
          \<lparr>ssbos := (ssbos (StateDiff_init example_limits))[2 := True],
           dtextures := (dtextures (StateDiff_init example_limits))[1 := True]\<rparr>)
       \<lparr>buffers = [entry GL_SHADER_STORAGE_BUFFER 2 (Some 3) 0], textures = [(1, Some 5)],
        images = []\<rparr>
     = Some ((\<lparr>buffers = [entry GL_SHADER_STORAGE_BUFFER 2 (Some 3) 64],
               textures = [(1, Some 5)], images = []\<rparr>,
              [GET_GL_ERROR, Buffer_bind GL_SHADER_STORAGE_BUFFER 2 3, GET_GL_ERROR,
               GlBindTextureUnit 1 6, GET_GL_ERROR]), None)
   \<and> in_order [Buffer_bind GL_SHADER_STORAGE_BUFFER 2 3, GlBindTextureUnit 1 6]"
proof -
  let ?d = "(StateDiff_init example_limits)
        \<lparr>ssbos := (ssbos (StateDiff_init example_limits))[2 := True],
         dtextures := (dtextures (StateDiff_init example_limits))[1 := True]\<rparr>"
  let ?st = "\<lparr>buffers = [entry GL_SHADER_STORAGE_BUFFER 2 (Some 3) 0], textures = [(1, Some 5)],
        images = []\<rparr>"
  have 1: "counter_range example_limits ?d"
    by (simp add: counter_range_def example_init example_sizes)
  have 2: "apply_diff example_limits example_live ?d ?st
     = Some ((\<lparr>buffers = [entry GL_SHADER_STORAGE_BUFFER 2 (Some 3) 64],
               textures = [(1, Some 5)], images = []\<rparr>,
              [GET_GL_ERROR, Buffer_bind GL_SHADER_STORAGE_BUFFER 2 3, GET_GL_ERROR,
               GlBindTextureUnit 1 6, GET_GL_ERROR]), None)"
    by (subst apply_diff_bounded [OF 1])
       (simp add: apply_eval example_init entry_def example_live_def)
  show ?thesis
    using apply_calls_in_order [OF 1, of example_live ?st] 1 2
    by (simp add: driver_calls_def)
qed

section \<open>The last bit of the other mask in the apply step\<close>

text \<open>
  C10 (as amended). The loop over the other mask visits the positions \<open>0\<close> to
  \<open>size() - 2\<close>, so the value of the last position changes neither the snapshot that the
  apply step leaves nor the bind and unbind calls it issues nor the way it ends. This holds
  whenever the step returns for both values; for a mask of at most 256 positions, whose loop
  bound the counter reaches, the step also returns for one value exactly when it does for the
  other. With the 11 positions of the mask this last position is the sentinel position 10.
  \<open>getBufferTargetFromBit\<close> maps position 10 to 0, which is none of the buffer targets.
\<close>

theorem sentinel_bit_never_applied:
  "(length (other d) \<le> 256 \<longrightarrow>
      rel_option same_effect (apply_diff L h d st)
        (apply_diff L h (d\<lparr>other := (other d)[length (other d) - 1 := v]\<rparr>) st))
   \<and> (\<forall>r r'. apply_diff L h d st = Some r
          \<and> apply_diff L h (d\<lparr>other := (other d)[length (other d) - 1 := v]\<rparr>) st = Some r'
          \<longrightarrow> same_effect r r')
   \<and> (length (other d) = 11 \<longrightarrow>
        rel_option same_effect (apply_diff L h d st)
          (apply_diff L h (d\<lparr>other := (other d)[10 := v]\<rparr>) st))
   \<and> getBufferTargetFromBit 10 = 0
   \<and> 0 \<notin> set enumerated_targets \<and> 0 \<notin> set dedicated_targets"
proof -
  let ?d' = "d\<lparr>other := (other d)[length (other d) - 1 := v]\<rparr>"
  have a: "length (other d) \<le> 256 \<Longrightarrow>
      rel_option same_effect (apply_diff L h d st) (apply_diff L h ?d' st)"
    by (rule apply_diff_last_other_bit)
  have b: "same_effect r r'"
    if "apply_diff L h d st = Some r" and "apply_diff L h ?d' st = Some r'" for r r'
    using that visit_all_last_other_bit [of L h d st v]
    by (auto dest!: apply_diff_returnsD)
  have c: "length (other d) = 11 \<Longrightarrow>
      rel_option same_effect (apply_diff L h d st) (apply_diff L h (d\<lparr>other := (other d)[10 := v]\<rparr>) st)"
    using a by simp
  have "getBufferTargetFromBit 10 = 0 \<and> 0 \<notin> set enumerated_targets \<and> 0 \<notin> set dedicated_targets"
    by (simp add: getBufferTargetFromBit_def enumerated_targets_def dedicated_targets_def
        gl_buffer_targets)
  then show ?thesis using a b c by blast
qed

theorem sentinel_bit_never_applied_witness:
  "length (other (StateDiff_init example_limits)) = 11
   \<and> apply_diff example_limits example_live (StateDiff_init example_limits)
         (buffers_only [entry 1 0 (Some 3) 0])
       = Some ((buffers_only [entry 1 0 (Some 3) 0], [GET_GL_ERROR]), None)
   \<and> apply_diff example_limits example_live
         ((StateDiff_init example_limits)
            \<lparr>other := (other (StateDiff_init example_limits))[10 := True]\<rparr>)
         (buffers_only [entry 1 0 (Some 3) 0])
       = Some ((buffers_only [entry 1 0 (Some 3) 0], [GET_GL_ERROR, GET_GL_ERROR]), None)
   \<and> same_effect ((buffers_only [entry 1 0 (Some 3) 0], [GET_GL_ERROR]), None)
         ((buffers_only [entry 1 0 (Some 3) 0], [GET_GL_ERROR, GET_GL_ERROR]), None)
   \<and> rel_option same_effect
         (apply_diff example_limits example_live (StateDiff_init example_limits)
            (buffers_only [entry 1 0 (Some 3) 0]))
         (apply_diff example_limits example_live
            ((StateDiff_init example_limits)
               \<lparr>other := (other (StateDiff_init example_limits))[10 := True]\<rparr>)
            (buffers_only [entry 1 0 (Some 3) 0]))"
proof -
  let ?d = "StateDiff_init example_limits"
  let ?d' = "?d\<lparr>other := (other ?d)[10 := True]\<rparr>"
  let ?st = "buffers_only [entry 1 0 (Some 3) 0]"
  have 0: "length (other ?d) = 11" "length (other ?d) - 1 = 10" "length (other ?d) \<le> 256"
    by (simp_all add: example_init)
  have 1: "counter_range example_limits ?d" "counter_range example_limits ?d'"
    by (simp_all add: counter_range_def example_init example_sizes)
  have 2: "apply_diff example_limits example_live ?d ?st = Some ((?st, [GET_GL_ERROR]), None)"
    by (subst apply_diff_bounded [OF 1(1)]) (simp add: apply_eval example_init)
  have 3: "apply_diff example_limits example_live ?d' ?st
             = Some ((?st, [GET_GL_ERROR, GET_GL_ERROR]), None)"
    by (subst apply_diff_bounded [OF 1(2)])
       (simp add: apply_eval example_init buffers_only_def entry_def getBufferTargetFromBit_def
          gl_buffer_targets)
  show ?thesis
    using sentinel_bit_never_applied [of ?d example_limits example_live ?st True] 0 2 3
    by simp
qed

text \<open>
  The sentinel position is not mapped back to \<open>GL_ARRAY_BUFFER\<close>, which is what position 0
  is mapped to.
\<close>

theorem sentinel_bit_not_array_buffer:
  "getBufferTargetFromBit 10 \<noteq> GL_ARRAY_BUFFER \<and> getBufferTargetFromBit 0 = GL_ARRAY_BUFFER"
  by (simp add: getBufferTargetFromBit_def GL_ARRAY_BUFFER_def)

section \<open>A set bit of the mask\<close>

text \<open>
  C2 (as amended). Let no bound of the seven loops be above 255, the texture and image masks
  be at least as wide as the numbers of units, and the other mask have at most 12 positions
  (beyond that, two positions are mapped to the same key). For every key that the loops of
  \<^verbatim>\<open>apply\<close> visit for a set bit of the mask, the apply step returns, and it does exactly one
  of three things at that key: if the snapshot holds a binding with a live resource, it
  issues one bind call for the key and the binding stays with its cached offset and size
  read from the resource; if the binding holds no resource, it issues one unbind call and
  the entry is removed; if the snapshot has no entry under the key, it issues no call and
  the snapshot still has no entry there.
\<close>

theorem apply_set_bit:
  assumes "counter_range L d"
    and "maxTextureBindings L \<le> length (dtextures d)"
    and "maxImageBindings L \<le> length (dimages d)"
    and "length (other d) \<le> 12"
    and "K \<in> applied_keys L d"
  shows "\<exists>st' tr. apply_diff L h d st = Some ((st', tr), None)
           \<and> calls_at K tr = expected_calls h st K
           \<and> lookup st' K = Option.bind (lookup st K) (settled h)"
proof -
  obtain s' where s': "visit_all L h d st = (s', None)" "applied h st (applied_keys L d) s'"
    using visit_all_applied [OF assms(2-4)] by blast
  have "calls_at K (snd s') = expected_calls h st K"
    using appliedD(4) [OF s'(2)] assms(5) by simp
  moreover have "lookup (fst s') K = Option.bind (lookup st K) (settled h)"
    using applied_lookup [OF s'(2) assms(5)] .
  ultimately show ?thesis
    using s'(1) apply_diff_bounded [OF assms(1), of h st] by (cases s') auto
qed

theorem apply_set_bit_witness:
  "counter_range example_limits ((StateDiff_init example_limits)\<lparr>ssbos := (ssbos (StateDiff_init example_limits))[2 := True]\<rparr>)
   \<and> maxTextureBindings example_limits \<le> length (dtextures ((StateDiff_init example_limits)\<lparr>ssbos := (ssbos (StateDiff_init example_limits))[2 := True]\<rparr>))
   \<and> maxImageBindings example_limits \<le> length (dimages ((StateDiff_init example_limits)\<lparr>ssbos := (ssbos (StateDiff_init example_limits))[2 := True]\<rparr>))
   \<and> length (other ((StateDiff_init example_limits)\<lparr>ssbos := (ssbos (StateDiff_init example_limits))[2 := True]\<rparr>)) \<le> 12
   \<and> Buffer_key (GL_SHADER_STORAGE_BUFFER, 2) \<in> applied_keys example_limits
         ((StateDiff_init example_limits)\<lparr>ssbos := (ssbos (StateDiff_init example_limits))[2 := True]\<rparr>)
   \<and> (\<exists>st' tr.
         apply_diff example_limits example_live
           ((StateDiff_init example_limits)\<lparr>ssbos := (ssbos (StateDiff_init example_limits))[2 := True]\<rparr>)
           (buffers_only [entry GL_SHADER_STORAGE_BUFFER 2 (Some 3) 0]) = Some ((st', tr), None)
         \<and> calls_at (Buffer_key (GL_SHADER_STORAGE_BUFFER, 2)) tr = [Buffer_bind GL_SHADER_STORAGE_BUFFER 2 3]
         \<and> lookup st' (Buffer_key (GL_SHADER_STORAGE_BUFFER, 2)) =
             Some (Buffer_binding \<lparr>target = GL_SHADER_STORAGE_BUFFER, location = 2, buffer = Some 3,
                                   offset = 0, bsize = 64\<rparr>))"
proof -
  let ?d = "(StateDiff_init example_limits)\<lparr>ssbos := (ssbos (StateDiff_init example_limits))[2 := True]\<rparr>"
  have 0: "counter_range example_limits ?d"
    by (simp add: counter_range_def example_init example_sizes)
  have 1: "maxTextureBindings example_limits \<le> length (dtextures ?d)"
    and 2: "maxImageBindings example_limits \<le> length (dimages ?d)"
    and 3: "length (other ?d) \<le> 12"
    by (simp_all add: example_init example_sizes)
  have "2 \<in> {i. i < length (ssbos ?d) \<and> ssbos ?d ! i}"
    by (simp add: example_init)
  then have 4: "Buffer_key (GL_SHADER_STORAGE_BUFFER, 2) \<in> applied_keys example_limits ?d"
    unfolding applied_keys_def by blast
  show ?thesis
    using apply_set_bit [OF 0 1 2 3 4, of example_live "buffers_only [entry GL_SHADER_STORAGE_BUFFER 2 (Some 3) 0]"]
      0 1 2 3 4
    by (simp add: expected_calls_def lookup_def settled_def settle_def buffers_only_def entry_def
        example_live_def)
qed

text \<open>
  C2 as stated fails for a key that is absent from the snapshot: with the bit of storage
  slot 2 set and an empty snapshot, \<open>bindOrRemoveBuffer\<close> finds no entry and does nothing;
  the trace of the apply step holds the two error probes and no unbind call.
\<close>

theorem apply_absent_key:
  "bit_at ((StateDiff_init example_limits)\<lparr>ssbos := (ssbos (StateDiff_init example_limits))[2 := True]\<rparr>)
     (Storage, 2)
   \<and> map_of (buffers (buffers_only [])) (GL_SHADER_STORAGE_BUFFER, 2) = None
   \<and> apply_diff example_limits example_live
       ((StateDiff_init example_limits)\<lparr>ssbos := (ssbos (StateDiff_init example_limits))[2 := True]\<rparr>)
       (buffers_only [])
     = Some ((buffers_only [], [GET_GL_ERROR, GET_GL_ERROR]), None)
   \<and> driver_calls [GET_GL_ERROR, GET_GL_ERROR] = []"
proof -
  have "counter_range example_limits
      ((StateDiff_init example_limits)\<lparr>ssbos := (ssbos (StateDiff_init example_limits))[2 := True]\<rparr>)"
    by (simp add: counter_range_def example_init example_sizes)
  then show ?thesis
    by (subst apply_diff_bounded)
       (simp_all add: apply_eval example_init bit_at_def mask_of_def buffers_only_def
          driver_calls_def)
qed

section \<open>The forced reconciliation\<close>

lemma makeDiff_counter_range:
  assumes "makeDiff L h cur tgt f = Inr (d, w)" and "limits_ok L"
  shows "counter_range L d"
  using makeDiff_length [OF assms(1), of Storage] makeDiff_length [OF assms(1), of Uniform]
    makeDiff_length [OF assms(1), of Atomic] makeDiff_length [OF assms(1), of Feedback]
    makeDiff_length [OF assms(1), of Other] assms(2)
  by (simp add: mask_of_def mask_lengths_init counter_range_def limits_ok_def)

lemma apply_diff_of_makeDiff:
  assumes d: "makeDiff L h cur tgt f = Inr (d, w)" and ok: "limits_ok L"
  shows "\<exists>s'. apply_diff L h d st = Some (s', None) \<and> visit_all L h d st = (s', None)
           \<and> applied h st (applied_keys L d) s'"
proof -
  have len: "length (other d) = 11" "maxTextureBindings L \<le> length (dtextures d)"
    "maxImageBindings L \<le> length (dimages d)"
    using makeDiff_lengths [OF d] ok by (simp_all add: limits_ok_def)
  obtain s' where s': "visit_all L h d st = (s', None)" "applied h st (applied_keys L d) s'"
    using visit_all_applied [OF len(2,3), of h st] len(1) by auto
  then show ?thesis
    using apply_diff_bounded [OF makeDiff_counter_range [OF d ok], of h st] by simp
qed

lemma unvisited_absent:
  assumes d: "makeDiff L h cur tgt True = Inr (d, w)" and wk: "well_keyed tgt"
    and ok: "limits_ok L" and ap: "applicable L tgt" and K: "K \<notin> applied_keys L d"
  shows "expected_calls h tgt K = []"
proof -
  have len: "length (other d) = 11"
    using makeDiff_lengths [OF d] ok by (simp_all add: limits_ok_def)
  have bits: "bit_at d s = (s \<in> slots cur \<union> slots tgt)" for s
    by (rule makeDiff_forced_bit [OF d])
  show ?thesis
  proof (cases K)
    case (Buffer_key k)
    have "map_of (buffers tgt) k = None"
    proof (rule ccontr)
      assume "map_of (buffers tgt) k \<noteq> None"
      then obtain b where b: "map_of (buffers tgt) k = Some b" by auto
      then have e: "(k, b) \<in> set (buffers tgt)" by (rule map_of_SomeD)
      then have "slot_of b \<in> slots tgt" by (force simp: slots_def)
      moreover have "key_of b = k" "regular_key k"
        using well_keyed_lookup [OF wk e] by simp_all
      ultimately have "bit_at d (buffer_slot k)" using bits by (simp add: slot_of_def)
      from buffer_bit_applied [OF \<open>regular_key k\<close> this len] K Buffer_key
      show False by simp
    qed
    then show ?thesis using Buffer_key by (simp add: expected_calls_def)
  next
    case (Texture_unit u)
    have "map_of (textures tgt) u = None"
    proof (rule ccontr)
      assume "map_of (textures tgt) u \<noteq> None"
      then obtain t where "map_of (textures tgt) u = Some t" by auto
      then have e: "(u, t) \<in> set (textures tgt)" by (rule map_of_SomeD)
      then have "(Textures, u) \<in> slots tgt" by (force simp: slots_def)
      then have "bit_at d (Textures, u)" using bits by simp
      moreover have "u < maxTextureBindings L" using ap e by (auto simp: applicable_def)
      ultimately show False using texture_bit_applied K Texture_unit by blast
    qed
    then show ?thesis using Texture_unit by (simp add: expected_calls_def)
  next
    case (Image_unit u)
    have "map_of (images tgt) u = None"
    proof (rule ccontr)
      assume "map_of (images tgt) u \<noteq> None"
      then obtain t where "map_of (images tgt) u = Some t" by auto
      then have e: "(u, t) \<in> set (images tgt)" by (rule map_of_SomeD)
      then have "(Images, u) \<in> slots tgt" by (force simp: slots_def)
      then have "bit_at d (Images, u)" using bits by simp
      moreover have "u < maxImageBindings L" using ap e by (auto simp: applicable_def)
      ultimately show False using image_bit_applied K Image_unit by blast
    qed
    then show ?thesis using Image_unit by (simp add: expected_calls_def)
  qed
qed

text \<open>
  C5 (as amended). Let the limits be as assumed above (\<open>limits_ok\<close>), both snapshots be
  within the limits of the masks, and the target be well keyed, with its texture and image
  units below the numbers of units. Then \<open>makeDiff\<close> with \<open>forced = true\<close> returns a
  mask that has exactly the bits of the slots occupied in either snapshot, and the apply
  step, run with this mask on the bindings of the target, returns and has issued, for every
  key, exactly one bind or unbind call if the target has an entry under the key and no call
  otherwise.
\<close>

theorem forced_reconcile:
  assumes wk: "well_keyed tgt" and lim: "within_limits L cur" "within_limits L tgt"
    and ok: "limits_ok L" and ap: "applicable L tgt"
  shows "\<exists>d w tgt' tr. makeDiff L h cur tgt True = Inr (d, w)
           \<and> (\<forall>s. bit_at d s = (s \<in> slots cur \<union> slots tgt))
           \<and> apply_diff L h d tgt = Some ((tgt', tr), None)
           \<and> (\<forall>K. calls_at K tr = expected_calls h tgt K)"
proof -
  obtain d w where d: "makeDiff L h cur tgt True = Inr (d, w)"
    using makeDiff_within_limits [OF lim] by blast
  obtain s' where s': "apply_diff L h d tgt = Some (s', None)"
    "applied h tgt (applied_keys L d) s'"
    using apply_diff_of_makeDiff [OF d ok, of tgt] by blast
  have bits: "bit_at d s = (s \<in> slots cur \<union> slots tgt)" for s
    by (rule makeDiff_forced_bit [OF d])
  have calls: "calls_at K (snd s') = expected_calls h tgt K" for K
    using appliedD(4) [OF s'(2), of K] unvisited_absent [OF d wk ok ap, of K]
    by (cases "K \<in> applied_keys L d") simp_all
  have "apply_diff L h d tgt = Some ((fst s', snd s'), None)" using s'(1) by simp
  then show ?thesis using d bits calls by blast
qed

theorem forced_reconcile_witness:
  "well_keyed (buffers_only [entry GL_SHADER_STORAGE_BUFFER 2 None 0,
                            entry GL_UNIFORM_BUFFER 0 (Some 4) 64])
   \<and> within_limits example_limits (buffers_only [entry GL_SHADER_STORAGE_BUFFER 2 (Some 3) 64])
   \<and> within_limits example_limits (buffers_only [entry GL_SHADER_STORAGE_BUFFER 2 None 0,
                                                   entry GL_UNIFORM_BUFFER 0 (Some 4) 64])
   \<and> limits_ok example_limits
   \<and> applicable example_limits (buffers_only [entry GL_SHADER_STORAGE_BUFFER 2 None 0,
                                               entry GL_UNIFORM_BUFFER 0 (Some 4) 64])
   \<and> (\<exists>d w tgt' tr.
         makeDiff example_limits example_live
           (buffers_only [entry GL_SHADER_STORAGE_BUFFER 2 (Some 3) 64])
           (buffers_only [entry GL_SHADER_STORAGE_BUFFER 2 None 0,
                          entry GL_UNIFORM_BUFFER 0 (Some 4) 64]) True = Inr (d, w)
         \<and> apply_diff example_limits example_live d
             (buffers_only [entry GL_SHADER_STORAGE_BUFFER 2 None 0,
                            entry GL_UNIFORM_BUFFER 0 (Some 4) 64]) = Some ((tgt', tr), None)
         \<and> calls_at (Buffer_key (GL_SHADER_STORAGE_BUFFER, 2)) tr = [Buffer_unbind GL_SHADER_STORAGE_BUFFER 2]
         \<and> calls_at (Buffer_key (GL_UNIFORM_BUFFER, 0)) tr = [Buffer_bind GL_UNIFORM_BUFFER 0 4]
         \<and> calls_at (Texture_unit 0) tr = [])"
proof -
  let ?c = "buffers_only [entry GL_SHADER_STORAGE_BUFFER 2 (Some 3) 64]"
  let ?t = "buffers_only [entry GL_SHADER_STORAGE_BUFFER 2 None 0,
                          entry GL_UNIFORM_BUFFER 0 (Some 4) 64]"
  have 1: "well_keyed ?t"
    by (simp add: pred_defs buffers_only_def entry_def key_of_def gl_buffer_targets)
  have 2: "within_limits example_limits ?c" and 3: "within_limits example_limits ?t"
    by (simp_all add: pred_defs buffers_only_def entry_def key_of_def gl_buffer_targets example_init)
  have 4: "limits_ok example_limits"
    by (simp add: limits_ok_def example_limits_def)
  have 5: "applicable example_limits ?t"
    by (simp add: applicable_def buffers_only_def)
  obtain d w tgt' tr where r: "makeDiff example_limits example_live ?c ?t True = Inr (d, w)"
    "apply_diff example_limits example_live d ?t = Some ((tgt', tr), None)"
    "\<forall>K. calls_at K tr = expected_calls example_live ?t K"
    using forced_reconcile [OF 1 2 3 4 5, of example_live] by blast
  have "calls_at (Buffer_key (GL_SHADER_STORAGE_BUFFER, 2)) tr = [Buffer_unbind GL_SHADER_STORAGE_BUFFER 2]"
    "calls_at (Buffer_key (GL_UNIFORM_BUFFER, 0)) tr = [Buffer_bind GL_UNIFORM_BUFFER 0 4]"
    "calls_at (Texture_unit 0) tr = []"
    using r(3) by (simp_all add: expected_calls_def buffers_only_def entry_def gl_buffer_targets)
  then show ?thesis using r(1,2) 1 2 3 4 5 by blast
qed

text \<open>
  C5 as stated fails for a slot that is occupied in one snapshot only: the current snapshot
  binds a buffer at storage slot 2, the target one at uniform slot 0. Both bits are set,
  but the apply step on the target issues the one call for uniform slot 0 and none for
  storage slot 2; run on the current snapshot instead, it issues the one call for storage
  slot 2 and none for uniform slot 0. Either way there is one driver call for two occupied
  slots.
\<close>

theorem forced_reconcile_skips_current:
  "(Storage, 2) \<in> slots (buffers_only [entry GL_SHADER_STORAGE_BUFFER 2 (Some 3) 64])
   \<and> (Uniform, 0) \<in> slots (buffers_only [entry GL_UNIFORM_BUFFER 0 (Some 4) 64])
   \<and> makeDiff example_limits example_live
       (buffers_only [entry GL_SHADER_STORAGE_BUFFER 2 (Some 3) 64])
       (buffers_only [entry GL_UNIFORM_BUFFER 0 (Some 4) 64]) True
     = Inr ((StateDiff_init example_limits)
              \<lparr>ssbos := (ssbos (StateDiff_init example_limits))[2 := True],
               ubos := (ubos (StateDiff_init example_limits))[0 := True]\<rparr>, [])
   \<and> apply_diff example_limits example_live
         ((StateDiff_init example_limits)
            \<lparr>ssbos := (ssbos (StateDiff_init example_limits))[2 := True],
             ubos := (ubos (StateDiff_init example_limits))[0 := True]\<rparr>)
         (buffers_only [entry GL_UNIFORM_BUFFER 0 (Some 4) 64])
     = Some ((buffers_only [entry GL_UNIFORM_BUFFER 0 (Some 4) 64],
              [GET_GL_ERROR, GET_GL_ERROR, Buffer_bind GL_UNIFORM_BUFFER 0 4, GET_GL_ERROR]),
             None)
   \<and> driver_calls [GET_GL_ERROR, GET_GL_ERROR, Buffer_bind GL_UNIFORM_BUFFER 0 4, GET_GL_ERROR]
       = [Buffer_bind GL_UNIFORM_BUFFER 0 4]
   \<and> apply_diff example_limits example_live
         ((StateDiff_init example_limits)
            \<lparr>ssbos := (ssbos (StateDiff_init example_limits))[2 := True],
             ubos := (ubos (StateDiff_init example_limits))[0 := True]\<rparr>)
         (buffers_only [entry GL_SHADER_STORAGE_BUFFER 2 (Some 3) 64])
     = Some ((buffers_only [entry GL_SHADER_STORAGE_BUFFER 2 (Some 3) 64],
              [GET_GL_ERROR, Buffer_bind GL_SHADER_STORAGE_BUFFER 2 3, GET_GL_ERROR,
               GET_GL_ERROR]), None)"
proof -
  have "counter_range example_limits
      ((StateDiff_init example_limits)
         \<lparr>ssbos := (ssbos (StateDiff_init example_limits))[2 := True],
          ubos := (ubos (StateDiff_init example_limits))[0 := True]\<rparr>)"
    by (simp add: counter_range_def example_init example_sizes)
  then show ?thesis
    by (simp add: apply_diff_bounded)
       (simp add: eval_defs apply_eval slots_def slot_of_def buffer_slot_def driver_calls_def)
qed

section \<open>Reconciliation twice\<close>








end
